theory Spec2Isabelle
  imports Complex_Main "HOL-Library.Char_ord" "HOL-Library.List_Lexorder" "HOL-Library.AList"
    "HOL-Library.Log_Nat"
begin

section \<open>JavaScript values\<close>

text \<open>
  The values of the program: what \<^verbatim>\<open>JSON.parse\<close> can produce, which is also what the
  two persisted pieces of state (\<^verbatim>\<open>completedDays\<close>, \<^verbatim>\<open>monthlyNotes\<close>) can hold, and
  \<^verbatim>\<open>undefined\<close>, the value of a property that is not there. An object is an
  association list in property order. Strings are sequences of ASCII characters, which
  covers every key the application builds itself.
\<close>

datatype jsval =
    JUndefined
  | JNull
  | JBool bool
  | JNum rat
  | JStr string
  | JArr "jsval list"
  | JObj "(string \<times> jsval) list"

type_synonym obj = "(string \<times> jsval) list"

text \<open>Truthiness as used by \<^verbatim>\<open>!x\<close>, \<^verbatim>\<open>if (x)\<close>, \<^verbatim>\<open>filter(Boolean)\<close>.\<close>

fun truthy :: "jsval \<Rightarrow> bool" where
  "truthy JUndefined = False"
| "truthy JNull = False"
| "truthy (JBool b) = b"
| "truthy (JNum x) = (x \<noteq> 0)"
| "truthy (JStr s) = (s \<noteq> [])"
| "truthy (JArr xs) = True"
| "truthy (JObj m) = True"

fun typeof :: "jsval \<Rightarrow> string" where
  "typeof JUndefined = ''undefined''"
| "typeof JNull = ''object''"
| "typeof (JBool b) = ''boolean''"
| "typeof (JNum x) = ''number''"
| "typeof (JStr s) = ''string''"
| "typeof (JArr xs) = ''object''"
| "typeof (JObj m) = ''object''"

section \<open>Decimal rendering of numbers\<close>

text \<open>\<^verbatim>\<open>Number.prototype.toString\<close> on integers, and \<^verbatim>\<open>zeroPad\<close> of the source:
  \<^verbatim>\<open>const zeroPad = (n) => n.toString().padStart(2, '0')\<close>.\<close>

definition digitChar :: "nat \<Rightarrow> char" where
  "digitChar n = ''0123456789'' ! n"

fun showNat :: "nat \<Rightarrow> string" where
  "showNat n = (if n < 10 then [digitChar n] else showNat (n div 10) @ [digitChar (n mod 10)])"

declare showNat.simps [simp del]

definition showInt :: "int \<Rightarrow> string" where
  "showInt i = (if i < 0 then CHR ''-'' # showNat (nat (- i)) else showNat (nat i))"

definition padStart :: "nat \<Rightarrow> char \<Rightarrow> string \<Rightarrow> string" where
  "padStart n c s = replicate (n - length s) c @ s"

definition zeroPad :: "int \<Rightarrow> string" where
  "zeroPad n = padStart 2 (CHR ''0'') (showInt n)"

section \<open>Dates\<close>

text \<open>
  A \<^verbatim>\<open>Date\<close> is either invalid (its time value is \<^verbatim>\<open>NaN\<close>) or a point of local
  time, kept by its local calendar fields: year, month index (0 to 11), day of the
  month and the milliseconds since local midnight. The calendar is the proleptic
  Gregorian one of ECMAScript. Local time is taken to run at no offset from UTC and
  without daylight-saving gaps.
\<close>

datatype jsdate = InvalidDate | LocalDate int int int nat

text \<open>A number that is an integer or \<^verbatim>\<open>NaN\<close> (\<open>None\<close>).\<close>

type_synonym num = "int option"

fun getFullYear :: "jsdate \<Rightarrow> num" where
  "getFullYear InvalidDate = None"
| "getFullYear (LocalDate y m d ms) = Some y"

fun getMonth :: "jsdate \<Rightarrow> num" where
  "getMonth InvalidDate = None"
| "getMonth (LocalDate y m d ms) = Some m"

fun getDate :: "jsdate \<Rightarrow> num" where
  "getDate InvalidDate = None"
| "getDate (LocalDate y m d ms) = Some d"

definition plus_num :: "num \<Rightarrow> int \<Rightarrow> num" where
  "plus_num a k = map_option (\<lambda>x. x + k) a"

subsection \<open>The calendar of ECMAScript\<close>

text \<open>\<^verbatim>\<open>DaysInYear(y)\<close> is 366: \<open>y\<close> is a multiple of 4 and not of 100, or a multiple
  of 400.\<close>

definition isLeap :: "int \<Rightarrow> bool" where
  "isLeap y = (if y mod 4 \<noteq> 0 then False else if y mod 100 \<noteq> 0 then True else y mod 400 = 0)"

text \<open>\<^verbatim>\<open>DayFromYear\<close>: the day number of 1 January of year \<open>y\<close>, day 0 being
  1 January 1970.\<close>

definition dayFromYear :: "int \<Rightarrow> int" where
  "dayFromYear y = 365 * (y - 1970) + (y - 1969) div 4 - (y - 1901) div 100 + (y - 1601) div 400"

text \<open>The number of days of year \<open>y\<close> before month \<open>m\<close> (the table behind
  \<^verbatim>\<open>MonthFromTime\<close>); \<open>m = 12\<close> gives the length of the year.\<close>

definition monthStart :: "int \<Rightarrow> int \<Rightarrow> int" where
  "monthStart y m =
     (let l = (if isLeap y then 1 else 0) in
      if m \<le> 0 then 0 else if m = 1 then 31 else if m = 2 then 59 + l
      else if m = 3 then 90 + l else if m = 4 then 120 + l else if m = 5 then 151 + l
      else if m = 6 then 181 + l else if m = 7 then 212 + l else if m = 8 then 243 + l
      else if m = 9 then 273 + l else if m = 10 then 304 + l else if m = 11 then 334 + l
      else 365 + l)"

definition monthLength :: "int \<Rightarrow> int \<Rightarrow> int" where
  "monthLength y m = monthStart y (m + 1) - monthStart y m"

text \<open>The day number of a calendar day, and the day of the week
  (\<^verbatim>\<open>WeekDay(t) = (Day(t) + 4) mod 7\<close>, 0 is Sunday).\<close>

definition dayNumber :: "int \<Rightarrow> int \<Rightarrow> int \<Rightarrow> int" where
  "dayNumber y m d = dayFromYear y + monthStart y m + d - 1"

fun getDay :: "jsdate \<Rightarrow> num" where
  "getDay InvalidDate = None"
| "getDay (LocalDate y m d ms) = Some ((dayNumber y m d + 4) mod 7)"

text \<open>
  \<^verbatim>\<open>MakeDay(year, month, date)\<close>: the month index is carried into the year, then the
  day of the month rolls over month by month until it names a day of its month
  (day 0 is the last day of the month before, day 32 of January is 1 February).
  \<open>makeDay\<close> always hands \<open>rollDay\<close> a month index from 0 to 11.
\<close>

function rollDay :: "int \<Rightarrow> int \<Rightarrow> int \<Rightarrow> int \<times> int \<times> int" where
  "rollDay y m d =
     (if m < 0 \<or> 11 < m then (y, m, d)
      else if d < 1 then
        (if m = 0 then rollDay (y - 1) 11 (d + monthLength (y - 1) 11)
         else rollDay y (m - 1) (d + monthLength y (m - 1)))
      else if monthLength y m < d then
        (if m = 11 then rollDay (y + 1) 0 (d - monthLength y m)
         else rollDay y (m + 1) (d - monthLength y m))
      else (y, m, d))"
  by pat_completeness auto

lemma month_cases:
  fixes m :: int
  assumes "0 \<le> m" "m \<le> 11"
  shows "m = 0 \<or> m = 1 \<or> m = 2 \<or> m = 3 \<or> m = 4 \<or> m = 5 \<or> m = 6 \<or> m = 7 \<or> m = 8
    \<or> m = 9 \<or> m = 10 \<or> m = 11"
  using assms by arith

lemma monthLength_bounds:
  assumes "0 \<le> m" "m \<le> 11"
  shows "28 \<le> monthLength y m \<and> monthLength y m \<le> 31"
  using month_cases [OF assms] by (auto simp add: monthLength_def monthStart_def)

termination rollDay
proof (relation "measure (\<lambda>(y, m, d). if d < 1 then nat (1 - d) + 31 else nat d)", goal_cases)
  case 1
  show ?case by simp
next
  case (2 y m d)
  then show ?case using monthLength_bounds [of 11 "y - 1"] by auto
next
  case (3 y m d)
  then show ?case using monthLength_bounds [of "m - 1" y] by auto
next
  case (4 y m d)
  then show ?case using monthLength_bounds [of m y] by auto
next
  case (5 y m d)
  then show ?case using monthLength_bounds [of m y] by auto
qed

declare rollDay.simps [simp del]

definition makeDay :: "int \<Rightarrow> int \<Rightarrow> int \<Rightarrow> int \<times> int \<times> int" where
  "makeDay y m d = rollDay (y + m div 12) (m mod 12) d"

text \<open>
  \<^verbatim>\<open>TimeClip\<close>: the time value of a \<^verbatim>\<open>Date\<close> is at most 8.64e15 milliseconds
  (100 million days) either side of the start of 1 January 1970; a constructor or
  setter that computes a time beyond that gives an invalid \<^verbatim>\<open>Date\<close>. The first
  valid day is 20 April of the year -271821, the last instant the start of
  13 September 275760. With local time at another offset from UTC the two limits lie
  up to a day earlier or later on the local calendar.
\<close>

definition timeClip :: "int \<Rightarrow> int \<Rightarrow> int \<Rightarrow> nat \<Rightarrow> jsdate" where
  "timeClip y m d ms =
     (if \<bar>dayNumber y m d * 86400000 + int ms\<bar> \<le> 8640000000000000
      then LocalDate y m d ms else InvalidDate)"

text \<open>
  \<^verbatim>\<open>new Date(year, monthIndex, day)\<close>: local midnight of the day \<^verbatim>\<open>MakeDay\<close> names,
  if that is within the limit. A year from 0 to 99 stands for 1900 to 1999, as the
  constructor has it. A \<^verbatim>\<open>NaN\<close> argument gives an invalid date.
\<close>

definition fullYear :: "int \<Rightarrow> int" where
  "fullYear y = (if 0 \<le> y \<and> y \<le> 99 then 1900 + y else y)"

fun newDate :: "num \<Rightarrow> num \<Rightarrow> num \<Rightarrow> jsdate" where
  "newDate (Some y) (Some m) (Some d) =
     (case makeDay (fullYear y) m d of (y', m', d') \<Rightarrow> timeClip y' m' d' 0)"
| "newDate _ _ _ = InvalidDate"

text \<open>\<^verbatim>\<open>date.setDate(n)\<close> keeps the time of day and, unlike the constructor, takes the
  year as it is.\<close>

fun setDate :: "jsdate \<Rightarrow> num \<Rightarrow> jsdate" where
  "setDate (LocalDate y m d ms) (Some n) =
     (case makeDay y m n of (y', m', d') \<Rightarrow> timeClip y' m' d' ms)"
| "setDate _ _ = InvalidDate"

section \<open>Helper functions of the source\<close>

text \<open>
  \<^verbatim>\<open>
  const getDateKey = (date) => {
      if (!date || !(date instanceof Date) || isNaN(date)) return '';
      try {
          const year = date.getFullYear();
          const month = date.getMonth() + 1;
          const day = date.getDate();
          return `${year}-${zeroPad(month)}-${zeroPad(day)}`;
      } catch (e) { ... return ''; }
  };
  \<close>
\<close>

fun getDateKey :: "jsdate \<Rightarrow> string" where
  "getDateKey InvalidDate = []"
| "getDateKey (LocalDate y m d ms) = showInt y @ ''-'' @ zeroPad (m + 1) @ ''-'' @ zeroPad d"

section \<open>Objects\<close>

text \<open>
  The own enumerable properties of a value, as the spread \<^verbatim>\<open>{ ...prev }\<close> copies them
  and \<^verbatim>\<open>Object.keys\<close> lists them: those of an object, the indexed elements of an array
  or a string, none for the other values.
\<close>

fun spread :: "jsval \<Rightarrow> obj" where
  "spread (JObj m) = m"
| "spread (JArr xs) = zip (map showNat [0..<length xs]) xs"
| "spread (JStr s) = zip (map showNat [0..<length s]) (map (\<lambda>c. JStr [c]) s)"
| "spread _ = []"

text \<open>
  Property access \<^verbatim>\<open>v[k]\<close> and \<^verbatim>\<open>v.k\<close>, \<^verbatim>\<open>undefined\<close> when the property is not
  there. Names inherited from a prototype (\<^verbatim>\<open>length\<close>, \<^verbatim>\<open>constructor\<close>, ...) are
  never among the names the program asks for, and are left out. On \<^verbatim>\<open>null\<close> and
  \<^verbatim>\<open>undefined\<close> the access throws a \<^verbatim>\<open>TypeError\<close>; every caller below says what it
  does with a \<open>nullish\<close> value.
\<close>

definition getProp :: "jsval \<Rightarrow> string \<Rightarrow> jsval" where
  "getProp v k = (case map_of (spread v) k of None \<Rightarrow> JUndefined | Some x \<Rightarrow> x)"

definition nullish :: "jsval \<Rightarrow> bool" where
  "nullish v = (v = JNull \<or> v = JUndefined)"

section \<open>The calendar grid\<close>

record cell =
  date :: jsdate
  isCurrentMonth :: bool
  key :: string

text \<open>The object literal
  \<^verbatim>\<open>{ date: new Date(..), isCurrentMonth: .., key: getDateKey(new Date(..)) }\<close>.\<close>

definition mkCell :: "jsdate \<Rightarrow> bool \<Rightarrow> cell" where
  "mkCell dt cur = \<lparr>date = dt, isCurrentMonth = cur, key = getDateKey dt\<rparr>"

text \<open>The values \<open>i\<close> takes in \<^verbatim>\<open>for (let i = n - 1; i >= 0; i--)\<close> and in
  \<^verbatim>\<open>for (let i = 1; i <= n; i++)\<close>; no iteration when \<open>n\<close> is \<^verbatim>\<open>NaN\<close>.\<close>

definition countDown :: "num \<Rightarrow> int list" where
  "countDown n = (case n of None \<Rightarrow> [] | Some s \<Rightarrow> rev [0..s - 1])"

definition countUp :: "num \<Rightarrow> int list" where
  "countUp n = (case n of None \<Rightarrow> [] | Some k \<Rightarrow> [1..k])"

text \<open>
  \<^verbatim>\<open>
  const generateCalendarDays = useCallback((date) => {
      const year = date.getFullYear();
      const month = date.getMonth();
      const firstDayOfMonth = new Date(year, month, 1);
      const lastDayOfMonth = new Date(year, month + 1, 0);
      const daysInMonth = lastDayOfMonth.getDate();
      const startDayOfWeek = firstDayOfMonth.getDay();
      const days = [];
      const prevMonthLastDay = new Date(year, month, 0).getDate();
      for (let i = startDayOfWeek - 1; i >= 0; i--) {
          days.push({ date: new Date(year, month - 1, prevMonthLastDay - i), isCurrentMonth: false, key: .. });
      }
      for (let i = 1; i <= daysInMonth; i++) {
          days.push({ date: new Date(year, month, i), isCurrentMonth: true, key: .. });
      }
      const gridEndOffset = 42 - days.length;
      for (let i = 1; i <= gridEndOffset; i++) {
          days.push({ date: new Date(year, month + 1, i), isCurrentMonth: false, key: .. });
      }
      return days;
  }, []);
  \<close>
\<close>

definition generateCalendarDays :: "jsdate \<Rightarrow> cell list" where
  "generateCalendarDays dt =
     (let year = getFullYear dt;
          month = getMonth dt;
          firstDayOfMonth = newDate year month (Some 1);
          lastDayOfMonth = newDate year (plus_num month 1) (Some 0);
          daysInMonth = getDate lastDayOfMonth;
          startDayOfWeek = getDay firstDayOfMonth;
          prevMonthLastDay = getDate (newDate year month (Some 0));
          days1 = map (\<lambda>i. mkCell (newDate year (plus_num month (- 1))
                                (plus_num prevMonthLastDay (- i))) False)
                    (countDown startDayOfWeek);
          days2 = days1 @ map (\<lambda>i. mkCell (newDate year month (Some i)) True)
                            (countUp daysInMonth);
          gridEndOffset = 42 - int (length days2);
          days3 = days2 @ map (\<lambda>i. mkCell (newDate year (plus_num month 1) (Some i)) False)
                            (countUp (Some gridEndOffset))
      in days3)"

section \<open>State and persistence\<close>

text \<open>
  The two \<^verbatim>\<open>useLocalStorage\<close> states of the application, and the calls of
  \<^verbatim>\<open>window.localStorage.setItem\<close> made so far: the storage key and the value that is
  serialised, latest last.
\<close>

record app =
  completedDays :: jsval
  monthlyNotes :: jsval
  writes :: "(string \<times> jsval) list"

text \<open>
  \<^verbatim>\<open>
  const setValue = useCallback((value) => {
      try {
          const valueToStore = value instanceof Function ? value(storedValue) : value;
          setStoredValue(valueToStore);
          window.localStorage.setItem(key, JSON.stringify(valueToStore));
      } catch (error) { console.error(..); }
  }, [key, storedValue]);
  \<close>
  The setter is given as a function of the stored value; a plain value is the constant
  function. The storage is taken to accept every write.
\<close>

definition setCompletedDays :: "(jsval \<Rightarrow> jsval) \<Rightarrow> app \<Rightarrow> app" where
  "setCompletedDays f st =
     (let valueToStore = f (completedDays st) in
      st\<lparr>completedDays := valueToStore,
         writes := writes st @ [(''completedDays'', valueToStore)]\<rparr>)"

definition setMonthlyNotes :: "(jsval \<Rightarrow> jsval) \<Rightarrow> app \<Rightarrow> app" where
  "setMonthlyNotes f st =
     (let valueToStore = f (monthlyNotes st) in
      st\<lparr>monthlyNotes := valueToStore,
         writes := writes st @ [(''monthlyNotes'', valueToStore)]\<rparr>)"

section \<open>The handlers\<close>

text \<open>
  \<^verbatim>\<open>
  const handleDayClick = useCallback((date) => {
      const key = getDateKey(date);
      if (!key) return;
      setCompletedDays(prev => {
          const newCompleted = { ...prev };
          if (newCompleted[key]) { delete newCompleted[key]; }
          else { newCompleted[key] = true; }
          return newCompleted;
      });
  }, [setCompletedDays]);
  \<close>
\<close>

definition toggleUpdater :: "string \<Rightarrow> jsval \<Rightarrow> jsval" where
  "toggleUpdater k prev =
     (let newCompleted = spread prev in
      if truthy (getProp (JObj newCompleted) k) then JObj (AList.delete k newCompleted)
      else JObj (AList.update k (JBool True) newCompleted))"

definition handleDayClick :: "jsdate \<Rightarrow> app \<Rightarrow> app" where
  "handleDayClick dt st =
     (let k = getDateKey dt in
      if k = [] then st else setCompletedDays (toggleUpdater k) st)"

text \<open>
  \<^verbatim>\<open>
  const handleMarkAll = useCallback(() => {
      setCompletedDays(prev => {
          const newCompleted = { ...prev };
          let changed = false;
          calendarDays.forEach(({ date, isCurrentMonth }) => {
              if (isCurrentMonth) {
                  const key = getDateKey(date);
                  if (key && !newCompleted[key]) { newCompleted[key] = true; changed = true; }
              }
          });
          return changed ? newCompleted : prev;
      });
  }, [calendarDays, setCompletedDays]);
  \<close>
\<close>

fun markAllLoop :: "cell list \<Rightarrow> obj \<times> bool \<Rightarrow> obj \<times> bool" where
  "markAllLoop [] acc = acc"
| "markAllLoop (c # cs) (newCompleted, changed) =
     (if isCurrentMonth c then
        (let k = getDateKey (date c) in
         if k \<noteq> [] \<and> \<not> truthy (getProp (JObj newCompleted) k)
         then markAllLoop cs (AList.update k (JBool True) newCompleted, True)
         else markAllLoop cs (newCompleted, changed))
      else markAllLoop cs (newCompleted, changed))"

definition markAllUpdater :: "cell list \<Rightarrow> jsval \<Rightarrow> jsval" where
  "markAllUpdater calendarDays prev =
     (case markAllLoop calendarDays (spread prev, False) of
        (newCompleted, changed) \<Rightarrow> if changed then JObj newCompleted else prev)"

definition handleMarkAll :: "cell list \<Rightarrow> app \<Rightarrow> app" where
  "handleMarkAll calendarDays st = setCompletedDays (markAllUpdater calendarDays) st"

text \<open>
  \<^verbatim>\<open>
  const handleResetMonth = useCallback(() => {
      const currentMonthKeys = calendarDays.filter(d => d.isCurrentMonth).map(d => d.key).filter(Boolean);
      const hasCompletions = currentMonthKeys.some(key => completedDays[key]);
      if (!hasCompletions) { alert("No completions to reset for the current month."); return; }
      if (window.confirm("Are you sure you want to reset completions for this month?")) {
          setCompletedDays(prev => {
              const newCompleted = { ...prev };
              currentMonthKeys.forEach(key => { delete newCompleted[key]; });
              return newCompleted;
          });
      }
  }, [calendarDays, completedDays, setCompletedDays]);
  \<close>
  The answer to \<^verbatim>\<open>window.confirm\<close> is the argument \<open>confirmed\<close>. Reading a key of a
  \<open>nullish\<close> \<^verbatim>\<open>completedDays\<close> throws, which ends the handler.
\<close>

datatype resetOutcome = NothingToReset | ResetDeclined | ResetDone | ResetThrew

definition currentMonthKeys :: "cell list \<Rightarrow> string list" where
  "currentMonthKeys calendarDays =
     filter (\<lambda>k. k \<noteq> []) (map key (filter isCurrentMonth calendarDays))"

definition resetUpdater :: "string list \<Rightarrow> jsval \<Rightarrow> jsval" where
  "resetUpdater ks prev = JObj (foldl (\<lambda>newCompleted k. AList.delete k newCompleted) (spread prev) ks)"

definition handleResetMonth :: "bool \<Rightarrow> cell list \<Rightarrow> app \<Rightarrow> app \<times> resetOutcome" where
  "handleResetMonth confirmed calendarDays st =
     (let ks = currentMonthKeys calendarDays in
      if nullish (completedDays st) \<and> ks \<noteq> [] then (st, ResetThrew)
      else if \<not> list_ex (\<lambda>k. truthy (getProp (completedDays st) k)) ks then (st, NothingToReset)
      else if confirmed then (setCompletedDays (resetUpdater ks) st, ResetDone)
      else (st, ResetDeclined))"

text \<open>
  \<^verbatim>\<open>
  const handleImport = useCallback((jsonData) => {
      try {
          const data = JSON.parse(jsonData);
          if (!data || typeof data.completedDays !== 'object' || typeof data.monthlyNotes !== 'object') {
               throw new Error('Invalid data format.');
          }
          if (window.confirm("Importing will overwrite current data. Are you sure?")) {
              setCompletedDays(data.completedDays);
              setMonthlyNotes(data.monthlyNotes);
              alert('Data imported successfully!');
          }
      } catch (error) {
          alert(`Failed to import data. Please ensure the file is valid. Error: ${error.message}`);
      }
  }, [setCompletedDays, setMonthlyNotes]);
  \<close>
  \<^verbatim>\<open>JSON.parse\<close> is the parameter \<open>parse\<close>, \<open>None\<close> where it throws its
  \<^verbatim>\<open>SyntaxError\<close>. The outcome records the exception that reached the \<^verbatim>\<open>catch\<close>, whose
  message the failure alert shows.
\<close>

datatype exn = SyntaxError | Error string

datatype importOutcome = ImportFailed exn | ImportDeclined | ImportDone

definition handleImport ::
  "(string \<Rightarrow> jsval option) \<Rightarrow> bool \<Rightarrow> string \<Rightarrow> app \<Rightarrow> app \<times> importOutcome" where
  "handleImport parse confirmed jsonData st =
     (case parse jsonData of
        None \<Rightarrow> (st, ImportFailed SyntaxError)
      | Some data \<Rightarrow>
          if \<not> truthy data \<or> typeof (getProp data ''completedDays'') \<noteq> ''object''
             \<or> typeof (getProp data ''monthlyNotes'') \<noteq> ''object''
          then (st, ImportFailed (Error ''Invalid data format.''))
          else if confirmed then
            (setMonthlyNotes (\<lambda>_. getProp data ''monthlyNotes'')
               (setCompletedDays (\<lambda>_. getProp data ''completedDays'') st), ImportDone)
          else (st, ImportDeclined))"

section \<open>Statistics\<close>

text \<open>
  \<^verbatim>\<open>new Date(s)\<close> followed by \<^verbatim>\<open>setUTCHours(0, 0, 0, 0)\<close>, as the number of its UTC
  day (\<open>None\<close> for an invalid date). A string \<^verbatim>\<open>YYYY-MM-DD\<close> that names a day of the
  calendar is the ECMAScript date-only form, read as UTC midnight of that day. What
  any other string gives is up to the implementation: the parameter \<open>legacy\<close>.
\<close>

definition isDigit :: "char \<Rightarrow> bool" where
  "isDigit c = (c \<in> set ''0123456789'')"

definition digitVal :: "char \<Rightarrow> int" where
  "digitVal c = int (of_char c) - 48"

fun parseIsoDate :: "string \<Rightarrow> (int \<times> int \<times> int) option" where
  "parseIsoDate [y1, y2, y3, y4, s1, m1, m2, s2, d1, d2] =
     (if list_all isDigit [y1, y2, y3, y4, m1, m2, d1, d2] \<and> s1 = CHR ''-'' \<and> s2 = CHR ''-''
      then Some (1000 * digitVal y1 + 100 * digitVal y2 + 10 * digitVal y3 + digitVal y4,
                 10 * digitVal m1 + digitVal m2, 10 * digitVal d1 + digitVal d2)
      else None)"
| "parseIsoDate _ = None"

definition utcDay :: "(string \<Rightarrow> int option) \<Rightarrow> string \<Rightarrow> int option" where
  "utcDay legacy s =
     (case parseIsoDate s of
        Some (y, m, d) \<Rightarrow>
          if 1 \<le> m \<and> m \<le> 12 \<and> 1 \<le> d \<and> d \<le> monthLength y (m - 1)
          then Some (dayNumber y (m - 1) d) else legacy s
      | None \<Rightarrow> legacy s)"

text \<open>\<^verbatim>\<open>Math.round((currentDate - lastDate) / (1000 * 60 * 60 * 24))\<close>: both dates are at
  UTC midnight, so the quotient is the difference of the day numbers; \<^verbatim>\<open>NaN\<close> when
  one of the dates is invalid.\<close>

definition diffDays :: "(string \<Rightarrow> int option) \<Rightarrow> string \<Rightarrow> string \<Rightarrow> int option" where
  "diffDays legacy cur lst =
     (case (utcDay legacy cur, utcDay legacy lst) of
        (Some a, Some b) \<Rightarrow> Some (a - b)
      | _ \<Rightarrow> None)"

text \<open>
  The numbers of \<^verbatim>\<open>(completedInMonth / totalDaysInMonth) * 100\<close> are IEEE 754 doubles:
  a division or multiplication gives the exact result rounded to the nearest double,
  to the one with the even significand at a tie. A double is \<open>n * 2 ^ e\<close> with
  \<open>\<bar>n\<bar> < 2 ^ 53\<close> and \<open>- 1074 \<le> e\<close>; for the number \<open>x\<close> the exponent \<open>e\<close> is that
  of the leading bit of \<open>x\<close> less 52, and \<open>n\<close> is \<open>x / 2 ^ e\<close> rounded to an integer.
  \<open>ilog2 x\<close> is the exponent of the leading bit of a positive number, found from the
  bit lengths of its numerator and denominator. The counts of cells are integers,
  which are doubles as they stand; the results here are at most 100, far from the
  overflow at \<open>2 ^ 1024\<close>, which is left out, and the divisor is positive wherever
  the statistics divide.
\<close>

definition roundEven :: "rat \<Rightarrow> int" where
  "roundEven x =
     (let n = \<lfloor>x\<rfloor>; r = x - of_int n in
      if r < 1 / 2 then n else if 1 / 2 < r then n + 1 else if even n then n else n + 1)"

definition ilog2 :: "rat \<Rightarrow> int" where
  "ilog2 x =
     (case quotient_of x of (p, q) \<Rightarrow>
        let k = bitlen p - bitlen q in if power_int 2 k \<le> x then k else k - 1)"

definition toDouble :: "rat \<Rightarrow> rat" where
  "toDouble x =
     (if x = 0 then 0
      else let e = max (ilog2 \<bar>x\<bar> - 52) (- 1074)
           in of_int (roundEven (x / power_int 2 e)) * power_int 2 e)"

definition fdiv :: "rat \<Rightarrow> rat \<Rightarrow> rat" where
  "fdiv x y = toDouble (x / y)"

definition fmul :: "rat \<Rightarrow> rat \<Rightarrow> rat" where
  "fmul x y = toDouble (x * y)"

text \<open>\<^verbatim>\<open>x.toFixed(0)\<close>, for \<open>x\<close> below \<open>10 ^ 21\<close> in absolute value: the decimal string
  of the integer nearest to \<open>\<bar>x\<bar>\<close>, the larger one at a tie, after a minus sign when
  \<open>x\<close> is negative.\<close>

definition toFixed0 :: "rat \<Rightarrow> string" where
  "toFixed0 x = (if x < 0 then CHR ''-'' # showInt (round (- x)) else showInt (round x))"

record stats =
  currentStreak :: nat
  longestStreak :: nat
  monthlyPercentage :: jsval
  completedInMonth :: nat
  totalDaysInMonth :: nat

text \<open>
  \<^verbatim>\<open>
  const stats = useMemo(() => {
      const sortedDates = Object.keys(completedDays).filter(key => completedDays[key]).sort();
      const currentMonthDays = calendarDays.filter(d => d.isCurrentMonth);
      const totalDaysInMonth = currentMonthDays.length;
      const completedInMonth = currentMonthDays.filter(d => completedDays[d.key]).length;
      const monthlyPercentage = totalDaysInMonth > 0 ? ((completedInMonth / totalDaysInMonth) * 100).toFixed(0) : 0;
      if (sortedDates.length === 0) {
          return { currentStreak: 0, longestStreak: 0, monthlyPercentage: 0, completedInMonth: 0, totalDaysInMonth: totalDaysInMonth };
      }
      let longestStreak = 0; let currentOverallStreak = 0; let tempStreak = 1;
      longestStreak = 1; currentOverallStreak = 1;
      for (let i = 1; i < sortedDates.length; i++) {
          const currentDate = new Date(sortedDates[i]);
          const lastDate = new Date(sortedDates[i - 1]);
          currentDate.setUTCHours(0, 0, 0, 0); lastDate.setUTCHours(0, 0, 0, 0);
          const diffTime = currentDate - lastDate;
          const diffDays = Math.round(diffTime / (1000 * 60 * 60 * 24));
          if (diffDays === 1) { tempStreak++; }
          else if (diffDays > 1) { longestStreak = Math.max(longestStreak, tempStreak); tempStreak = 1; }
      }
      longestStreak = Math.max(longestStreak, tempStreak);
      currentOverallStreak = tempStreak;
      let finalCurrentStreak = 0;
      const today = new Date();
      const yesterday = new Date();
      yesterday.setDate(today.getDate() - 1);
      const lastCompletedDateStr = sortedDates[sortedDates.length - 1];
      const isLastDayToday = lastCompletedDateStr === getDateKey(today);
      const isLastDayYesterday = lastCompletedDateStr === getDateKey(yesterday);
      if (isLastDayToday || isLastDayYesterday) { finalCurrentStreak = currentOverallStreak; }
      return { currentStreak: finalCurrentStreak, longestStreak, monthlyPercentage, completedInMonth, totalDaysInMonth };
  }, [completedDays, calendarDays]);
  \<close>
  \<^verbatim>\<open>completedDays\<close> is an object here, given by its properties. The wall clock
  \<^verbatim>\<open>new Date()\<close> is the argument \<open>now\<close>.
\<close>

definition sortedDates :: "obj \<Rightarrow> string list" where
  "sortedDates cd = sort (filter (\<lambda>k. truthy (getProp (JObj cd) k)) (map fst cd))"

text \<open>The loop over \<open>i\<close>, on the keys from index \<open>i - 1\<close> on; the state is
  \<^verbatim>\<open>(longestStreak, tempStreak)\<close>.\<close>

fun streakLoop :: "(string \<Rightarrow> int option) \<Rightarrow> string list \<Rightarrow> nat \<times> nat \<Rightarrow> nat \<times> nat" where
  "streakLoop legacy (lst # cur # rest) (longest, temp) =
     (case diffDays legacy cur lst of
        None \<Rightarrow> streakLoop legacy (cur # rest) (longest, temp)
      | Some n \<Rightarrow>
          if n = 1 then streakLoop legacy (cur # rest) (longest, temp + 1)
          else if n > 1 then streakLoop legacy (cur # rest) (max longest temp, 1)
          else streakLoop legacy (cur # rest) (longest, temp))"
| "streakLoop legacy ks acc = acc"

definition stats :: "(string \<Rightarrow> int option) \<Rightarrow> jsdate \<Rightarrow> obj \<Rightarrow> cell list \<Rightarrow> stats" where
  "stats legacy now cd calendarDays =
     (let sorted = sortedDates cd;
          currentMonthDays = filter isCurrentMonth calendarDays;
          total = length currentMonthDays;
          completed = length (filter (\<lambda>d. truthy (getProp (JObj cd) (key d))) currentMonthDays);
          percentage = (if total > 0
                        then JStr (toFixed0 (fmul (fdiv (of_nat completed) (of_nat total)) 100))
                        else JNum 0)
      in if sorted = [] then
           \<lparr>currentStreak = 0, longestStreak = 0, monthlyPercentage = JNum 0,
            completedInMonth = 0, totalDaysInMonth = total\<rparr>
         else
           (case streakLoop legacy sorted (1, 1) of
              (longest, temp) \<Rightarrow>
                (let longest' = max longest temp;
                     currentOverallStreak = temp;
                     today = now;
                     yesterday = setDate now (plus_num (getDate today) (- 1));
                     lastCompletedDateStr = last sorted;
                     isLastDayToday = (lastCompletedDateStr = getDateKey today);
                     isLastDayYesterday = (lastCompletedDateStr = getDateKey yesterday);
                     finalCurrentStreak =
                       (if isLastDayToday \<or> isLastDayYesterday then currentOverallStreak else 0)
                 in \<lparr>currentStreak = finalCurrentStreak, longestStreak = longest',
                     monthlyPercentage = percentage, completedInMonth = completed,
                     totalDaysInMonth = total\<rparr>)))"

section \<open>Notions of the specification\<close>

text \<open>The month before and the month after month \<open>m\<close> of year \<open>y\<close>, across the
  boundaries of the year.\<close>

definition prevYear :: "int \<Rightarrow> int \<Rightarrow> int" where
  "prevYear y m = (if m = 0 then y - 1 else y)"

definition prevMonth :: "int \<Rightarrow> int" where
  "prevMonth m = (if m = 0 then 11 else m - 1)"

definition nextYear :: "int \<Rightarrow> int \<Rightarrow> int" where
  "nextYear y m = (if m = 11 then y + 1 else y)"

definition nextMonth :: "int \<Rightarrow> int" where
  "nextMonth m = (if m = 11 then 0 else m + 1)"

text \<open>The weekday of the first day of a month, 0 being Sunday.\<close>

definition startWeekday :: "int \<Rightarrow> int \<Rightarrow> int" where
  "startWeekday y m = (dayNumber y m 1 + 4) mod 7"

text \<open>The day count of a month as the calendar rule gives it: February has 28 days,
  29 in a leap year; April, June, September and November have 30; the others 31.\<close>

definition trueDayCount :: "int \<Rightarrow> int \<Rightarrow> int" where
  "trueDayCount y m =
     (if m = 1 then
        (if y mod 400 = 0 then 29 else if y mod 100 = 0 then 28 else if y mod 4 = 0 then 29 else 28)
      else if m = 3 \<or> m = 5 \<or> m = 8 \<or> m = 10 then 30 else 31)"

text \<open>The current-month cells of a grid whose day is completed.\<close>

definition completedCells :: "obj \<Rightarrow> cell list \<Rightarrow> cell list" where
  "completedCells cd calendarDays =
     filter (\<lambda>d. truthy (getProp (JObj cd) (key d))) (filter isCurrentMonth calendarDays)"

text \<open>Example data: the completion map after the first fifteen days of April 2024
  have been marked, in order.\<close>

definition aprilHalf :: obj where
  "aprilHalf = map (\<lambda>i. (getDateKey (LocalDate 2024 3 i 0), JBool True)) [1..15]"

text \<open>
  The streak walk as the specification words it. \<open>gaps\<close> are the differences in days
  between consecutive keys. \<open>runningStreaks r gs\<close> lists the running streak length at
  every key of the walk, starting from \<open>r\<close>: a gap of exactly one day extends the
  running streak, a larger gap closes it and starts a new one of length 1. A gap that
  is neither (no day apart, or not a number) leaves the running length as it is.
\<close>

fun gaps :: "(string \<Rightarrow> int option) \<Rightarrow> string list \<Rightarrow> int option list" where
  "gaps legacy (a # b # rest) = diffDays legacy b a # gaps legacy (b # rest)"
| "gaps legacy ks = []"

fun extend :: "nat \<Rightarrow> int option \<Rightarrow> nat" where
  "extend r None = r"
| "extend r (Some n) = (if n = 1 then r + 1 else if 1 < n then 1 else r)"

fun runningStreaks :: "nat \<Rightarrow> int option list \<Rightarrow> nat list" where
  "runningStreaks r [] = [r]"
| "runningStreaks r (g # gs) = r # runningStreaks (extend r g) gs"

text \<open>The calendar day before a date, at the same time of day.\<close>

fun dayBefore :: "jsdate \<Rightarrow> jsdate" where
  "dayBefore InvalidDate = InvalidDate"
| "dayBefore (LocalDate y m d ms) =
     (if 1 < d then LocalDate y m (d - 1) ms
      else LocalDate (prevYear y m) (prevMonth m) (trueDayCount (prevYear y m) (prevMonth m)) ms)"

text \<open>A date whose fields name a day of the calendar and a time of that day.\<close>

fun validDate :: "jsdate \<Rightarrow> bool" where
  "validDate InvalidDate = False"
| "validDate (LocalDate y m d ms) =
     (0 \<le> m \<and> m \<le> 11 \<and> 1 \<le> d \<and> d \<le> trueDayCount y m \<and> ms < 86400000)"

text \<open>Example data: completions on 1, 2, 3 and 5 January 2024, the last one entered
  second.\<close>

definition januaryDays :: obj where
  "januaryDays = [(''2024-01-01'', JBool True), (''2024-01-05'', JBool True),
                  (''2024-01-02'', JBool True), (''2024-01-03'', JBool True)]"

text \<open>Example data: completions on 1 June 999 and on 1 November 2026, under the keys
  that \<open>getDateKey\<close> gives the two days.\<close>

definition distantDays :: obj where
  "distantDays = [(getDateKey (LocalDate 999 5 1 0), JBool True),
                  (getDateKey (LocalDate 2026 10 1 0), JBool True)]"

text \<open>The invariant of the completion map: every property that is there holds
  \<^verbatim>\<open>true\<close>.\<close>

definition onlyTrue :: "jsval \<Rightarrow> bool" where
  "onlyTrue v = list_all (\<lambda>kv. snd kv = JBool True) (spread v)"

text \<open>Every current-month cell of the grid is completed in the map \<open>v\<close>.\<close>

definition allCompleted :: "cell list \<Rightarrow> jsval \<Rightarrow> bool" where
  "allCompleted calendarDays v =
     list_all (\<lambda>c. truthy (getProp v (getDateKey (date c)))) (filter isCurrentMonth calendarDays)"

text \<open>
  Example data for the import: the value of \<^verbatim>\<open>JSON.parse\<close> on three texts (a file in
  the export format that stores an explicit \<^verbatim>\<open>false\<close>, an array, \<^verbatim>\<open>null\<close>). On
  every other text \<open>parseSample\<close> answers as \<^verbatim>\<open>JSON.parse\<close> does on a text that is
  not JSON; the examples apply it to \<^verbatim>\<open>{oops\<close> only.
\<close>

definition importText :: string where
  \<open>importText = ''{"completedDays":{"2024-01-01":false},"monthlyNotes":{}}''\<close>

definition importValue :: jsval where
  "importValue = JObj [(''completedDays'', JObj [(''2024-01-01'', JBool False)]),
                       (''monthlyNotes'', JObj [])]"

definition parseSample :: "string \<Rightarrow> jsval option" where
  "parseSample s =
     (if s = importText then Some importValue
      else if s = ''[1, 2]'' then Some (JArr [JNum 1, JNum 2])
      else if s = ''null'' then Some JNull
      else None)"

text \<open>Example data for the import: a file in the export format whose
  \<^verbatim>\<open>completedDays\<close> is \<^verbatim>\<open>null\<close>, and the value of \<^verbatim>\<open>JSON.parse\<close> on it.\<close>

definition nullDaysText :: string where
  \<open>nullDaysText = ''{"completedDays":null,"monthlyNotes":{}}''\<close>

definition nullDaysValue :: jsval where
  "nullDaysValue = JObj [(''completedDays'', JNull), (''monthlyNotes'', JObj [])]"

definition parseNullDays :: "string \<Rightarrow> jsval option" where
  "parseNullDays s = (if s = nullDaysText then Some nullDaysValue else None)"

text \<open>Example data: the state of a fresh installation, and a state with one completed
  day.\<close>

definition freshApp :: app where
  "freshApp = \<lparr>completedDays = JObj [], monthlyNotes = JObj [], writes = []\<rparr>"

definition oneDayApp :: app where
  "oneDayApp = \<lparr>completedDays = JObj [(''2024-01-01'', JBool True)], monthlyNotes = JObj [],
                 writes = []\<rparr>"

section \<open>Day numbers\<close>

lemma div_succ:
  fixes a n :: int
  assumes "1 < n"
  shows "(a + 1) div n = a div n + (if (a + 1) mod n = 0 then 1 else 0)"
proof -
  have r: "0 \<le> a mod n" "a mod n < n" using assms by simp_all
  have one: "1 div n = 0" "1 mod n = 1" using assms by simp_all
  have "(a + 1) div n = a div n + 1 div n + (a mod n + 1 mod n) div n"
    by (rule div_add1_eq)
  then have d: "(a + 1) div n = a div n + (a mod n + 1) div n"
    by (simp only: one add_0_right)
  have "(a + 1) mod n = (a mod n + 1 mod n) mod n"
    by (rule mod_add_eq [symmetric])
  then have m: "(a + 1) mod n = (a mod n + 1) mod n"
    by (simp only: one)
  show ?thesis
  proof (cases "a mod n + 1 = n")
    case True
    then show ?thesis using assms by (simp only: d m) simp
  next
    case False
    then have lt: "a mod n + 1 < n" using r by simp
    have z: "(a mod n + 1) div n = 0" using r lt by (intro div_pos_pos_trivial) simp_all
    have k: "(a mod n + 1) mod n = a mod n + 1" using r lt by (intro mod_pos_pos_trivial) simp_all
    show ?thesis using r by (simp only: d m z k) simp
  qed
qed

lemma shift_mod:
  fixes y k n :: int
  shows "(y - k * n) mod n = y mod n"
proof -
  have "y - k * n = y + (- k) * n" by simp
  then show ?thesis by (simp only: mod_mult_self1)
qed

lemma dayFromYear_succ:
  "dayFromYear (y + 1) = dayFromYear y + 365 + (if isLeap y then 1 else 0)"
proof -
  have a: "(y + 1 - 1969) div 4 = (y - 1969) div 4 + (if y mod 4 = 0 then 1 else 0)"
  proof -
    have "y - 1969 + 1 = y - 492 * 4" by simp
    then have "(y - 1969 + 1) mod 4 = y mod 4" by (simp only: shift_mod)
    moreover have "y + 1 - 1969 = y - 1969 + 1" by simp
    ultimately show ?thesis using div_succ [of 4 "y - 1969"] by (simp only:)
  qed
  have b: "(y + 1 - 1901) div 100 = (y - 1901) div 100 + (if y mod 100 = 0 then 1 else 0)"
  proof -
    have "y - 1901 + 1 = y - 19 * 100" by simp
    then have "(y - 1901 + 1) mod 100 = y mod 100" by (simp only: shift_mod)
    moreover have "y + 1 - 1901 = y - 1901 + 1" by simp
    ultimately show ?thesis using div_succ [of 100 "y - 1901"] by (simp only:)
  qed
  have c: "(y + 1 - 1601) div 400 = (y - 1601) div 400 + (if y mod 400 = 0 then 1 else 0)"
  proof -
    have "y - 1601 + 1 = y - 4 * 400" by simp
    then have "(y - 1601 + 1) mod 400 = y mod 400" by (simp only: shift_mod)
    moreover have "y + 1 - 1601 = y - 1601 + 1" by simp
    ultimately show ?thesis using div_succ [of 400 "y - 1601"] by (simp only:)
  qed
  have "(100::int) dvd 400" and "(4::int) dvd 100" by simp_all
  then have d: "y mod 400 = 0 \<Longrightarrow> y mod 100 = 0" and e: "y mod 100 = 0 \<Longrightarrow> y mod 4 = 0"
    by (auto simp only: mod_eq_0_iff_dvd intro: dvd_trans)
  have "dayFromYear (y + 1) = 365 * (y + 1 - 1970) + (y + 1 - 1969) div 4 - (y + 1 - 1901) div 100
      + (y + 1 - 1601) div 400"
    by (simp only: dayFromYear_def)
  also have "\<dots> = dayFromYear y + 365 + ((if y mod 4 = 0 then 1 else 0)
      - (if y mod 100 = 0 then 1 else 0) + (if y mod 400 = 0 then 1 else 0))"
    unfolding a b c dayFromYear_def by (simp only: algebra_simps)
  also have "(if y mod 4 = 0 then 1 else 0) - (if y mod 100 = 0 then 1 else 0)
      + (if y mod 400 = 0 then 1 else 0) = (if isLeap y then 1 else (0::int))"
    using d e by (auto simp add: isLeap_def)
  finally show ?thesis .
qed

lemma dayFromYear_pred:
  "dayFromYear y = dayFromYear (y - 1) + 365 + (if isLeap (y - 1) then 1 else 0)"
  using dayFromYear_succ [of "y - 1"] by simp

lemma monthStart_succ: "monthStart y (m + 1) = monthStart y m + monthLength y m"
  by (simp add: monthLength_def)

lemma monthStart_year: "monthStart y 12 = 365 + (if isLeap y then 1 else 0)"
  by (simp add: monthStart_def)

lemma monthStart_zero: "monthStart y 0 = 0"
  by (simp add: monthStart_def)

text \<open>Rolling the day over keeps the day number that \<^verbatim>\<open>MakeDay\<close> computes, and ends at
  a day of the calendar.\<close>

lemma rollDay_dayNumber:
  assumes "0 \<le> m" "m \<le> 11"
  shows "case rollDay y m d of (y', m', d') \<Rightarrow>
     dayNumber y' m' d' = dayNumber y m d \<and> 0 \<le> m' \<and> m' \<le> 11 \<and> 1 \<le> d' \<and> d' \<le> monthLength y' m'"
  using assms
proof (induction y m d rule: rollDay.induct)
  case (1 y m d)
  note range = "1.prems"
  show ?case
  proof (cases "d < 1")
    case True
    show ?thesis
    proof (cases "m = 0")
      case m0: True
      have step: "rollDay y m d = rollDay (y - 1) 11 (d + monthLength (y - 1) 11)"
        using True m0 by (subst rollDay.simps) simp
      have ih: "case rollDay (y - 1) 11 (d + monthLength (y - 1) 11) of (y', m', d') \<Rightarrow>
          dayNumber y' m' d' = dayNumber (y - 1) 11 (d + monthLength (y - 1) 11)
          \<and> 0 \<le> m' \<and> m' \<le> 11 \<and> 1 \<le> d' \<and> d' \<le> monthLength y' m'"
        using "1.IH"(1) range True m0 by simp
      have "dayNumber (y - 1) 11 (d + monthLength (y - 1) 11) = dayNumber y m d"
        using monthStart_succ [of "y - 1" 11] dayFromYear_pred [of y]
        by (simp add: dayNumber_def m0 monthStart_year monthStart_zero)
      then show ?thesis using ih by (simp add: step)
    next
      case False
      have step: "rollDay y m d = rollDay y (m - 1) (d + monthLength y (m - 1))"
        using True False range by (subst rollDay.simps) simp
      have ih: "case rollDay y (m - 1) (d + monthLength y (m - 1)) of (y', m', d') \<Rightarrow>
          dayNumber y' m' d' = dayNumber y (m - 1) (d + monthLength y (m - 1))
          \<and> 0 \<le> m' \<and> m' \<le> 11 \<and> 1 \<le> d' \<and> d' \<le> monthLength y' m'"
        using "1.IH"(2) range True False by simp
      have "dayNumber y (m - 1) (d + monthLength y (m - 1)) = dayNumber y m d"
        using monthStart_succ [of y "m - 1"] by (simp add: dayNumber_def)
      then show ?thesis using ih by (simp add: step)
    qed
  next
    case False
    show ?thesis
    proof (cases "monthLength y m < d")
      case over: True
      show ?thesis
      proof (cases "m = 11")
        case True
        have step: "rollDay y m d = rollDay (y + 1) 0 (d - monthLength y m)"
          using False over True by (subst rollDay.simps) simp
        have ih: "case rollDay (y + 1) 0 (d - monthLength y m) of (y', m', d') \<Rightarrow>
            dayNumber y' m' d' = dayNumber (y + 1) 0 (d - monthLength y m)
            \<and> 0 \<le> m' \<and> m' \<le> 11 \<and> 1 \<le> d' \<and> d' \<le> monthLength y' m'"
          using "1.IH"(3) range False over True by simp
        have "dayNumber (y + 1) 0 (d - monthLength y m) = dayNumber y m d"
          using monthStart_succ [of y 11] dayFromYear_succ [of y]
          by (simp add: dayNumber_def True monthStart_year monthStart_zero)
        then show ?thesis using ih by (simp add: step)
      next
        case m11: False
        have step: "rollDay y m d = rollDay y (m + 1) (d - monthLength y m)"
          using False over m11 range by (subst rollDay.simps) simp
        have ih: "case rollDay y (m + 1) (d - monthLength y m) of (y', m', d') \<Rightarrow>
            dayNumber y' m' d' = dayNumber y (m + 1) (d - monthLength y m)
            \<and> 0 \<le> m' \<and> m' \<le> 11 \<and> 1 \<le> d' \<and> d' \<le> monthLength y' m'"
          using "1.IH"(4) range False over m11 by simp
        have "dayNumber y (m + 1) (d - monthLength y m) = dayNumber y m d"
          using monthStart_succ [of y m] by (simp add: dayNumber_def)
        then show ?thesis using ih by (simp add: step)
      qed
    next
      case inside: False
      have "rollDay y m d = (y, m, d)"
        using False inside range by (subst rollDay.simps) simp
      then show ?thesis using False inside range by simp
    qed
  qed
qed

text \<open>\<open>makeDay\<close> names the day whose number is \<^verbatim>\<open>MakeDay(year, month, date)\<close> of
  ECMAScript: the first day of the month, reached through the year
  \<open>y + m div 12\<close> and the month \<open>m mod 12\<close>, plus \<open>d - 1\<close>.\<close>

lemma makeDay_dayNumber:
  "case makeDay y m d of (y', m', d') \<Rightarrow>
     dayNumber y' m' d' = dayFromYear (y + m div 12) + monthStart (y + m div 12) (m mod 12) + d - 1
     \<and> 0 \<le> m' \<and> m' \<le> 11 \<and> 1 \<le> d' \<and> d' \<le> monthLength y' m'"
  using rollDay_dayNumber [of "m mod 12" "y + m div 12" d]
  by (simp add: makeDay_def dayNumber_def)

section \<open>The order of the day numbers\<close>

lemma dayFromYear_mono:
  assumes "y1 < y2"
  shows "dayFromYear y1 + 365 \<le> dayFromYear y2"
proof -
  have "y1 + 1 \<le> y2" using assms by simp
  then show ?thesis
  proof (induction y2 rule: int_ge_induct)
    case base
    then show ?case by (simp add: dayFromYear_succ)
  next
    case (step k)
    then show ?case using dayFromYear_succ [of k] by (simp split: if_splits)
  qed
qed

lemma monthLength_nonneg: "0 \<le> monthLength y m"
  by (simp add: monthLength_def monthStart_def)

lemma monthStart_mono:
  assumes "a \<le> b"
  shows "monthStart y a \<le> monthStart y b"
  using assms
proof (induction b rule: int_ge_induct)
  case base
  then show ?case by simp
next
  case (step k)
  then show ?case using monthStart_succ [of y k] monthLength_nonneg [of y k] by simp
qed

lemma monthStart_nonneg: "0 \<le> monthStart y m"
  by (simp add: monthStart_def)

lemma monthStart_le_year: "monthStart y m \<le> 365 + (if isLeap y then 1 else 0)"
  by (simp add: monthStart_def)

text \<open>The day number grows with the calendar day.\<close>

lemma dayNumber_increasing:
  assumes "0 \<le> m1" "m1 \<le> 11" "1 \<le> d1" "d1 \<le> monthLength y1 m1"
    and "0 \<le> m2" "m2 \<le> 11" "1 \<le> d2" "d2 \<le> monthLength y2 m2"
    and "y1 < y2 \<or> y1 = y2 \<and> (m1 < m2 \<or> m1 = m2 \<and> d1 < d2)"
  shows "dayNumber y1 m1 d1 < dayNumber y2 m2 d2"
proof -
  have top: "monthStart y1 m1 + d1 \<le> monthStart y1 (m1 + 1)"
    using assms(4) by (simp add: monthStart_succ)
  consider "y1 < y2" | "y1 = y2" "m1 < m2" | "y1 = y2" "m1 = m2" "d1 < d2" using assms(9) by auto
  then show ?thesis
  proof cases
    case 1
    have "dayNumber y1 m1 d1 < dayFromYear y1 + monthStart y1 (m1 + 1)"
      using top by (simp add: dayNumber_def)
    also have "\<dots> \<le> dayFromYear (y1 + 1)"
      using monthStart_le_year [of y1 "m1 + 1"] by (simp add: dayFromYear_succ)
    also have "\<dots> \<le> dayFromYear y2"
    proof (cases "y1 + 1 = y2")
      case True
      then show ?thesis by simp
    next
      case False
      then have "y1 + 1 < y2" using 1 by simp
      then show ?thesis using dayFromYear_mono [of "y1 + 1" y2] by simp
    qed
    also have "\<dots> \<le> dayNumber y2 m2 d2"
      using monthStart_nonneg [of y2 m2] assms(7) by (simp add: dayNumber_def)
    finally show ?thesis .
  next
    case 2
    have "monthStart y1 (m1 + 1) \<le> monthStart y1 m2"
      using 2 by (intro monthStart_mono) simp
    then show ?thesis using top 2 assms(7) by (simp add: dayNumber_def)
  next
    case 3
    then show ?thesis by (simp add: dayNumber_def)
  qed
qed

lemma dayNumber_less_iff:
  assumes "0 \<le> m1" "m1 \<le> 11" "1 \<le> d1" "d1 \<le> monthLength y1 m1"
    and "0 \<le> m2" "m2 \<le> 11" "1 \<le> d2" "d2 \<le> monthLength y2 m2"
  shows "dayNumber y1 m1 d1 < dayNumber y2 m2 d2
    \<longleftrightarrow> y1 < y2 \<or> y1 = y2 \<and> (m1 < m2 \<or> m1 = m2 \<and> d1 < d2)"
proof
  assume "y1 < y2 \<or> y1 = y2 \<and> (m1 < m2 \<or> m1 = m2 \<and> d1 < d2)"
  then show "dayNumber y1 m1 d1 < dayNumber y2 m2 d2"
    by (rule dayNumber_increasing [OF assms])
next
  assume l: "dayNumber y1 m1 d1 < dayNumber y2 m2 d2"
  show "y1 < y2 \<or> y1 = y2 \<and> (m1 < m2 \<or> m1 = m2 \<and> d1 < d2)"
  proof (rule ccontr)
    assume n: "\<not> (y1 < y2 \<or> y1 = y2 \<and> (m1 < m2 \<or> m1 = m2 \<and> d1 < d2))"
    then consider "y1 = y2 \<and> m1 = m2 \<and> d1 = d2"
      | "y2 < y1 \<or> y2 = y1 \<and> (m2 < m1 \<or> m2 = m1 \<and> d2 < d1)" by linarith
    then show False
    proof cases
      case 1
      then show ?thesis using l by simp
    next
      case 2
      then have "dayNumber y2 m2 d2 < dayNumber y1 m1 d1"
        by (rule dayNumber_increasing [OF assms(5-8) assms(1-4)])
      then show ?thesis using l by simp
    qed
  qed
qed

section \<open>The limit of the time value\<close>

lemma dayNumber_first: "dayNumber (- 271821) 3 20 = - 100000000"
  by (simp add: dayNumber_def dayFromYear_def monthStart_def isLeap_def)

lemma dayNumber_last: "dayNumber 275760 8 13 = 100000000"
  by (simp add: dayNumber_def dayFromYear_def monthStart_def isLeap_def)

text \<open>Every day from May of the year -271821 to August of the year 275760 is within
  the limit, at every time of the day.\<close>

lemma timeClip_valid:
  assumes "0 \<le> m" "m \<le> 11" "1 \<le> d" "d \<le> monthLength y m" "ms < 86400000"
    and "- 271821 < y \<or> y = - 271821 \<and> 4 \<le> m"
    and "y < 275760 \<or> y = 275760 \<and> m \<le> 7"
  shows "timeClip y m d ms = LocalDate y m d ms"
proof -
  have "dayNumber (- 271821) 3 20 < dayNumber y m d"
    using assms(6)
    by (intro dayNumber_increasing assms(1-4)) (auto simp add: monthLength_def monthStart_def)
  then have lo: "- 100000000 < dayNumber y m d" by (simp only: dayNumber_first)
  have "dayNumber y m d < dayNumber 275760 8 13"
    using assms(7)
    by (intro dayNumber_increasing assms(1-4)) (auto simp add: monthLength_def monthStart_def)
  then have hi: "dayNumber y m d < 100000000" by (simp only: dayNumber_last)
  have "\<bar>dayNumber y m d * 86400000 + int ms\<bar> \<le> 8640000000000000"
    using lo hi assms(5) by simp
  then show ?thesis by (simp add: timeClip_def)
qed

section \<open>The date constructor\<close>

lemma rollDay_valid:
  assumes "0 \<le> m" "m \<le> 11" "1 \<le> d" "d \<le> monthLength y m"
  shows "rollDay y m d = (y, m, d)"
  using assms by (subst rollDay.simps) simp

lemma makeDay_valid:
  assumes "0 \<le> m" "m \<le> 11" "1 \<le> d" "d \<le> monthLength y m"
  shows "makeDay y m d = (y, m, d)"
  using assms by (simp add: makeDay_def rollDay_valid)

lemma prevMonth_range: "0 \<le> m \<Longrightarrow> m \<le> 11 \<Longrightarrow> 0 \<le> prevMonth m \<and> prevMonth m \<le> 11"
  by (simp add: prevMonth_def)

lemma nextMonth_range: "0 \<le> m \<Longrightarrow> m \<le> 11 \<Longrightarrow> 0 \<le> nextMonth m \<and> nextMonth m \<le> 11"
  by (simp add: nextMonth_def)

lemma makeDay_prev:
  assumes "0 \<le> m" "m \<le> 11" "1 \<le> d" "d \<le> monthLength (prevYear y m) (prevMonth m)"
  shows "makeDay y (m - 1) d = (prevYear y m, prevMonth m, d)"
proof (cases "m = 0")
  case True
  then show ?thesis using assms
    by (simp add: makeDay_def prevYear_def prevMonth_def rollDay_valid)
next
  case False
  with assms have "(m - 1) div 12 = 0" "(m - 1) mod 12 = m - 1" by auto
  then show ?thesis using assms False
    by (simp add: makeDay_def prevYear_def prevMonth_def rollDay_valid)
qed

lemma makeDay_next:
  assumes "0 \<le> m" "m \<le> 11" "1 \<le> d" "d \<le> monthLength (nextYear y m) (nextMonth m)"
  shows "makeDay y (m + 1) d = (nextYear y m, nextMonth m, d)"
proof (cases "m = 11")
  case True
  then show ?thesis using assms
    by (simp add: makeDay_def nextYear_def nextMonth_def rollDay_valid)
next
  case False
  with assms have "(m + 1) div 12 = 0" "(m + 1) mod 12 = m + 1" by auto
  then show ?thesis using assms False
    by (simp add: makeDay_def nextYear_def nextMonth_def rollDay_valid)
qed

lemma rollDay_zero:
  assumes "0 \<le> m" "m \<le> 11"
  shows "rollDay y m 0 = (prevYear y m, prevMonth m, monthLength (prevYear y m) (prevMonth m))"
proof -
  have b: "1 \<le> monthLength (prevYear y m) (prevMonth m)"
    using monthLength_bounds [of "prevMonth m" "prevYear y m"] prevMonth_range [OF assms] by simp
  show ?thesis
    using assms b
    by (subst rollDay.simps) (auto simp add: prevYear_def prevMonth_def rollDay_valid)
qed

lemma makeDay_zero:
  assumes "0 \<le> m" "m \<le> 11"
  shows "makeDay y m 0 = (prevYear y m, prevMonth m, monthLength (prevYear y m) (prevMonth m))"
  using assms by (simp add: makeDay_def rollDay_zero)

lemma makeDay_last:
  assumes "0 \<le> m" "m \<le> 11"
  shows "makeDay y (m + 1) 0 = (y, m, monthLength y m)"
proof (cases "m = 11")
  case True
  then show ?thesis
    using rollDay_zero [of 0 "y + 1"] by (simp add: makeDay_def prevYear_def prevMonth_def)
next
  case False
  with assms have "(m + 1) div 12 = 0" "(m + 1) mod 12 = m + 1" by auto
  then show ?thesis
    using assms False rollDay_zero [of "m + 1" y] by (simp add: makeDay_def prevYear_def prevMonth_def)
qed

lemma map_countDown:
  "map (\<lambda>i. f (p - i)) (rev [0..s - 1]) = map f [p - s + 1..p]"
proof (induction "nat s" arbitrary: s)
  case 0
  then show ?case by simp
next
  case (Suc n)
  then have s: "0 < s" and n: "n = nat (s - 1)" by auto
  have "[0..s - 1] = [0..s - 1 - 1] @ [s - 1]" using s by (simp add: upto_rec2)
  moreover have "[p - s + 1..p] = (p - s + 1) # [p - s + 1 + 1..p]" using s by (simp add: upto_rec1)
  moreover have "p - (s - 1) = p - s + 1" by simp
  ultimately show ?case using Suc.hyps(1) [OF n] by (simp add: algebra_simps)
qed

text \<open>The days of a month and of the months before and after it are within the limit
  of the time value when the year of the month is from -271820 to 275759.\<close>

lemma timeClip_month:
  assumes "0 \<le> m" "m \<le> 11" "1 \<le> d" "d \<le> monthLength y m"
    and "- 271820 \<le> y" "y \<le> 275759"
  shows "timeClip y m d 0 = LocalDate y m d 0"
  using assms by (intro timeClip_valid) simp_all

lemma timeClip_prev:
  assumes "0 \<le> m" "m \<le> 11" "1 \<le> d" "d \<le> monthLength (prevYear y m) (prevMonth m)"
    and "- 271820 \<le> y" "y \<le> 275759"
  shows "timeClip (prevYear y m) (prevMonth m) d 0 = LocalDate (prevYear y m) (prevMonth m) d 0"
  using assms prevMonth_range [OF assms(1,2)]
  by (intro timeClip_valid) (auto simp add: prevYear_def prevMonth_def)

lemma timeClip_next:
  assumes "0 \<le> m" "m \<le> 11" "1 \<le> d" "d \<le> monthLength (nextYear y m) (nextMonth m)"
    and "- 271820 \<le> y" "y \<le> 275759"
  shows "timeClip (nextYear y m) (nextMonth m) d 0 = LocalDate (nextYear y m) (nextMonth m) d 0"
  using assms nextMonth_range [OF assms(1,2)]
  by (intro timeClip_valid) (auto simp add: nextYear_def nextMonth_def)

lemma newDate_valid:
  assumes "0 \<le> m" "m \<le> 11" "1 \<le> d" "d \<le> monthLength (fullYear y) m"
    and "- 271820 \<le> fullYear y" "fullYear y \<le> 275759"
  shows "newDate (Some y) (Some m) (Some d) = LocalDate (fullYear y) m d 0"
  using assms by (simp add: makeDay_valid timeClip_month)

lemma newDate_prev:
  assumes "0 \<le> m" "m \<le> 11" "1 \<le> d"
    and "d \<le> monthLength (prevYear (fullYear y) m) (prevMonth m)"
    and "- 271820 \<le> fullYear y" "fullYear y \<le> 275759"
  shows "newDate (Some y) (Some (m - 1)) (Some d)
    = LocalDate (prevYear (fullYear y) m) (prevMonth m) d 0"
  using assms by (simp add: makeDay_prev timeClip_prev)

lemma newDate_next:
  assumes "0 \<le> m" "m \<le> 11" "1 \<le> d"
    and "d \<le> monthLength (nextYear (fullYear y) m) (nextMonth m)"
    and "- 271820 \<le> fullYear y" "fullYear y \<le> 275759"
  shows "newDate (Some y) (Some (m + 1)) (Some d)
    = LocalDate (nextYear (fullYear y) m) (nextMonth m) d 0"
  using assms by (simp add: makeDay_next timeClip_next)

lemma grid_first:
  assumes "0 \<le> m" "m \<le> 11" "- 271820 \<le> fullYear y" "fullYear y \<le> 275759"
  shows "newDate (Some y) (Some m) (Some 1) = LocalDate (fullYear y) m 1 0"
  using assms monthLength_bounds [OF assms(1,2), of "fullYear y"] by (intro newDate_valid) simp_all

lemma grid_last:
  assumes "0 \<le> m" "m \<le> 11" "- 271820 \<le> fullYear y" "fullYear y \<le> 275759"
  shows "newDate (Some y) (Some (m + 1)) (Some 0) = LocalDate (fullYear y) m (monthLength (fullYear y) m) 0"
  using assms monthLength_bounds [OF assms(1,2), of "fullYear y"]
  by (simp add: makeDay_last timeClip_month)

lemma grid_prevLast:
  assumes "0 \<le> m" "m \<le> 11" "- 271820 \<le> fullYear y" "fullYear y \<le> 275759"
  shows "newDate (Some y) (Some m) (Some 0) =
    LocalDate (prevYear (fullYear y) m) (prevMonth m) (monthLength (prevYear (fullYear y) m) (prevMonth m)) 0"
  using assms monthLength_bounds [of "prevMonth m" "prevYear (fullYear y) m"]
    prevMonth_range [OF assms(1,2)]
  by (simp add: makeDay_zero timeClip_prev)

lemma weekday_range: "0 \<le> (dayNumber y m d + 4) mod 7 \<and> (dayNumber y m d + 4) mod 7 \<le> 6"
  by simp

lemma generateCalendarDays_grid:
  assumes "0 \<le> m" "m \<le> 11" "- 271820 \<le> fullYear y" "fullYear y \<le> 275759"
  shows "generateCalendarDays (LocalDate y m d ms) =
     map (\<lambda>i. mkCell (LocalDate (prevYear (fullYear y) m) (prevMonth m) i 0) False)
       [monthLength (prevYear (fullYear y) m) (prevMonth m) - startWeekday (fullYear y) m + 1
        ..monthLength (prevYear (fullYear y) m) (prevMonth m)]
     @ map (\<lambda>i. mkCell (LocalDate (fullYear y) m i 0) True) [1..monthLength (fullYear y) m]
     @ map (\<lambda>i. mkCell (LocalDate (nextYear (fullYear y) m) (nextMonth m) i 0) False)
         [1..42 - startWeekday (fullYear y) m - monthLength (fullYear y) m]"
proof -
  define Y where "Y = fullYear y"
  define s where "s = startWeekday Y m"
  define n where "n = monthLength Y m"
  define pl where "pl = monthLength (prevYear Y m) (prevMonth m)"
  note month = assms(1,2)
  have s: "0 \<le> s" "s \<le> 6" by (simp_all add: s_def startWeekday_def)
  have n: "28 \<le> n" "n \<le> 31" using monthLength_bounds [OF month, of Y] by (simp_all add: n_def)
  have pl: "28 \<le> pl" "pl \<le> 31"
    using monthLength_bounds [of "prevMonth m" "prevYear Y m"] prevMonth_range [OF month]
    by (simp_all add: pl_def)
  have nl: "28 \<le> monthLength (nextYear Y m) (nextMonth m)"
    using monthLength_bounds [of "nextMonth m" "nextYear Y m"] nextMonth_range [OF month] by simp
  have trailing: "map (\<lambda>i. mkCell (newDate (Some y) (Some (m - 1)) (Some (pl - i))) False) (rev [0..s - 1])
      = map (\<lambda>i. mkCell (LocalDate (prevYear Y m) (prevMonth m) i 0) False) [pl - s + 1..pl]"
  proof -
    have "map (\<lambda>i. mkCell (newDate (Some y) (Some (m - 1)) (Some (pl - i))) False) (rev [0..s - 1])
      = map (\<lambda>i. mkCell (newDate (Some y) (Some (m - 1)) (Some i)) False) [pl - s + 1..pl]"
      by (rule map_countDown)
    also have "\<dots> = map (\<lambda>i. mkCell (LocalDate (prevYear Y m) (prevMonth m) i 0) False) [pl - s + 1..pl]"
    proof (rule map_cong [OF refl])
      fix i assume "i \<in> set [pl - s + 1..pl]"
      then have "1 \<le> i" "i \<le> pl" using s pl by auto
      then show "mkCell (newDate (Some y) (Some (m - 1)) (Some i)) False
          = mkCell (LocalDate (prevYear Y m) (prevMonth m) i 0) False"
        using assms by (simp add: newDate_prev pl_def Y_def del: newDate.simps)
    qed
    finally show ?thesis .
  qed
  have current: "map (\<lambda>i. mkCell (newDate (Some y) (Some m) (Some i)) True) [1..n]
      = map (\<lambda>i. mkCell (LocalDate Y m i 0) True) [1..n]"
  proof (rule map_cong [OF refl])
    fix i assume "i \<in> set [1..n]"
    then have "1 \<le> i" "i \<le> n" by auto
    then show "mkCell (newDate (Some y) (Some m) (Some i)) True = mkCell (LocalDate Y m i 0) True"
      using assms by (simp add: newDate_valid n_def Y_def del: newDate.simps)
  qed
  have leading: "map (\<lambda>i. mkCell (newDate (Some y) (Some (m + 1)) (Some i)) False) [1..42 - (s + n)]
      = map (\<lambda>i. mkCell (LocalDate (nextYear Y m) (nextMonth m) i 0) False) [1..42 - s - n]"
  proof (rule map_cong)
    show "[1..42 - (s + n)] = [1..42 - s - n]" by (simp add: diff_diff_eq)
  next
    fix i assume "i \<in> set [1..42 - s - n]"
    then have "1 \<le> i" "i \<le> 14" using s n by auto
    then show "mkCell (newDate (Some y) (Some (m + 1)) (Some i)) False
        = mkCell (LocalDate (nextYear Y m) (nextMonth m) i 0) False"
      using assms nl by (simp add: newDate_next Y_def del: newDate.simps)
  qed
  have gd: "getDay (newDate (Some y) (Some m) (Some 1)) = Some s"
    using assms by (simp add: grid_first s_def Y_def startWeekday_def del: newDate.simps)
  have dim: "getDate (newDate (Some y) (Some (m + 1)) (Some 0)) = Some n"
    using assms by (simp add: grid_last n_def Y_def del: newDate.simps)
  have pld: "getDate (newDate (Some y) (Some m) (Some 0)) = Some pl"
    using assms by (simp add: grid_prevLast pl_def Y_def del: newDate.simps)
  have "generateCalendarDays (LocalDate y m d ms) =
     map (\<lambda>i. mkCell (LocalDate (prevYear Y m) (prevMonth m) i 0) False) [pl - s + 1..pl]
     @ map (\<lambda>i. mkCell (LocalDate Y m i 0) True) [1..n]
     @ map (\<lambda>i. mkCell (LocalDate (nextYear Y m) (nextMonth m) i 0) False) [1..42 - s - n]"
    unfolding generateCalendarDays_def Let_def
    using s n pl
    by (simp add: gd dim pld trailing current leading plus_num_def countDown_def countUp_def
        del: newDate.simps)
  then show ?thesis
    by (simp only: Y_def s_def n_def pl_def)
qed

section \<open>The shape of the grid\<close>

lemma monthLength_true:
  assumes "0 \<le> m" "m \<le> 11"
  shows "monthLength y m = trueDayCount y m"
proof -
  have "(100::int) dvd 400" and "(4::int) dvd 100" by simp_all
  then have a: "y mod 400 = 0 \<Longrightarrow> y mod 100 = 0" and b: "y mod 100 = 0 \<Longrightarrow> y mod 4 = 0"
    by (auto simp only: mod_eq_0_iff_dvd intro: dvd_trans)
  have feb: "monthLength y 1 = trueDayCount y 1"
    using a b by (simp add: monthLength_def monthStart_def trueDayCount_def isLeap_def)
  show ?thesis
    using month_cases [OF assms] feb
    by (elim disjE) (simp_all add: monthLength_def monthStart_def trueDayCount_def)
qed

lemma isCurrentMonth_mkCell: "isCurrentMonth (mkCell dt b) = b"
  by (simp add: mkCell_def)

lemma date_mkCell: "date (mkCell dt b) = dt"
  by (simp add: mkCell_def)

lemma key_mkCell: "key (mkCell dt b) = getDateKey dt"
  by (simp add: mkCell_def)

lemma generateCalendarDays_flags:
  assumes "0 \<le> m" "m \<le> 11" "- 271820 \<le> fullYear y" "fullYear y \<le> 275759"
  shows "map isCurrentMonth (generateCalendarDays (LocalDate y m d ms)) =
     replicate (nat (startWeekday (fullYear y) m)) False
     @ replicate (nat (monthLength (fullYear y) m)) True
     @ replicate (nat (42 - startWeekday (fullYear y) m - monthLength (fullYear y) m)) False"
  by (simp add: generateCalendarDays_grid [OF assms] o_def isCurrentMonth_mkCell map_replicate_const)

text \<open>The grid has 42 cells for every date, an invalid one and one at the limit of the
  time value included.\<close>

lemma getDay_bounds:
  assumes "getDay dt = Some s"
  shows "0 \<le> s \<and> s \<le> 6"
  using assms by (cases dt) auto

lemma getDate_newDate_bounds:
  assumes "getDate (newDate a b c) = Some n"
  shows "1 \<le> n \<and> n \<le> 31"
proof -
  from assms obtain y m d where abc: "a = Some y" "b = Some m" "c = Some d"
    by (cases a; cases b; cases c) simp_all
  obtain y' m' d' where md: "makeDay (fullYear y) m d = (y', m', d')" by (cases "makeDay (fullYear y) m d")
  have r: "0 \<le> m'" "m' \<le> 11" "1 \<le> d'" "d' \<le> monthLength y' m'"
    using makeDay_dayNumber [of "fullYear y" m d] by (simp_all add: md)
  have "n = d'"
    using assms by (simp add: abc md timeClip_def split: if_splits)
  then show ?thesis using r monthLength_bounds [OF r(1,2), of y'] by simp
qed

lemma generateCalendarDays_length: "length (generateCalendarDays dt) = 42"
proof -
  define a where "a = countDown (getDay (newDate (getFullYear dt) (getMonth dt) (Some 1)))"
  define b where "b = countUp (getDate (newDate (getFullYear dt) (plus_num (getMonth dt) 1) (Some 0)))"
  have a: "length a \<le> 6"
  proof (cases "getDay (newDate (getFullYear dt) (getMonth dt) (Some 1))")
    case None
    then show ?thesis by (simp add: a_def countDown_def)
  next
    case (Some s)
    then show ?thesis using getDay_bounds [OF Some] by (auto simp add: a_def countDown_def)
  qed
  have b: "length b \<le> 31"
  proof (cases "getDate (newDate (getFullYear dt) (plus_num (getMonth dt) 1) (Some 0))")
    case None
    then show ?thesis by (simp add: b_def countUp_def)
  next
    case (Some n)
    then show ?thesis using getDate_newDate_bounds [OF Some] by (auto simp add: b_def countUp_def)
  qed
  have "length (generateCalendarDays dt)
      = length a + length b + length (countUp (Some (42 - int (length a + length b))))"
    unfolding generateCalendarDays_def Let_def a_def b_def by simp
  then show ?thesis using a b by (simp add: countUp_def)
qed

lemma generateCalendarDays_current:
  assumes "0 \<le> m" "m \<le> 11" "- 271820 \<le> fullYear y" "fullYear y \<le> 275759"
  shows "filter isCurrentMonth (generateCalendarDays (LocalDate y m d ms)) =
     map (\<lambda>i. mkCell (LocalDate (fullYear y) m i 0) True) [1..monthLength (fullYear y) m]"
  by (simp add: generateCalendarDays_grid [OF assms] filter_map o_def isCurrentMonth_mkCell)

lemma generateCalendarDays_total:
  assumes "0 \<le> m" "m \<le> 11" "- 271820 \<le> fullYear y" "fullYear y \<le> 275759"
  shows "length (filter isCurrentMonth (generateCalendarDays (LocalDate y m d ms))) =
     nat (monthLength (fullYear y) m)"
  by (simp add: generateCalendarDays_current [OF assms])

lemma generateCalendarDays_invalid:
  "generateCalendarDays InvalidDate = replicate 42 (mkCell InvalidDate False)"
  by (simp add: generateCalendarDays_def countDown_def countUp_def plus_num_def map_replicate_const)

text \<open>For the years from -271820 to 275759 other than 0 to 99, the grid of a month is
  the end of the month before, the month, and the start of the month after.\<close>

lemma generateCalendarDays_shape:
  assumes "0 \<le> m" "m \<le> 11" and "y < 0 \<or> 99 < y" and "- 271820 \<le> y" "y \<le> 275759"
  shows "length (generateCalendarDays (LocalDate y m d ms)) = 42"
    and "map isCurrentMonth (generateCalendarDays (LocalDate y m d ms)) =
       replicate (nat (startWeekday y m)) False @ replicate (nat (trueDayCount y m)) True
       @ replicate (nat (42 - startWeekday y m - trueDayCount y m)) False"
    and "map date (generateCalendarDays (LocalDate y m d ms)) =
       map (\<lambda>i. LocalDate (prevYear y m) (prevMonth m) i 0)
         [trueDayCount (prevYear y m) (prevMonth m) - startWeekday y m + 1
          ..trueDayCount (prevYear y m) (prevMonth m)]
       @ map (\<lambda>i. LocalDate y m i 0) [1..trueDayCount y m]
       @ map (\<lambda>i. LocalDate (nextYear y m) (nextMonth m) i 0)
           [1..42 - startWeekday y m - trueDayCount y m]"
proof -
  have y: "fullYear y = y" using assms(3) by (auto simp add: fullYear_def)
  have r: "- 271820 \<le> fullYear y" "fullYear y \<le> 275759" using assms(4,5) by (simp_all only: y)
  note grid = assms(1,2) r
  have p: "monthLength (prevYear y m) (prevMonth m) = trueDayCount (prevYear y m) (prevMonth m)"
    using prevMonth_range [OF assms(1,2)] by (simp add: monthLength_true)
  show "length (generateCalendarDays (LocalDate y m d ms)) = 42"
    by (rule generateCalendarDays_length)
  show "map isCurrentMonth (generateCalendarDays (LocalDate y m d ms)) =
       replicate (nat (startWeekday y m)) False @ replicate (nat (trueDayCount y m)) True
       @ replicate (nat (42 - startWeekday y m - trueDayCount y m)) False"
    using generateCalendarDays_flags [OF grid, of d ms]
    by (simp add: y monthLength_true [OF assms(1,2)])
  show "map date (generateCalendarDays (LocalDate y m d ms)) =
       map (\<lambda>i. LocalDate (prevYear y m) (prevMonth m) i 0)
         [trueDayCount (prevYear y m) (prevMonth m) - startWeekday y m + 1
          ..trueDayCount (prevYear y m) (prevMonth m)]
       @ map (\<lambda>i. LocalDate y m i 0) [1..trueDayCount y m]
       @ map (\<lambda>i. LocalDate (nextYear y m) (nextMonth m) i 0)
           [1..42 - startWeekday y m - trueDayCount y m]"
    by (simp add: generateCalendarDays_grid [OF grid] y p monthLength_true [OF assms(1,2)]
        o_def date_mkCell)
qed

lemma generateCalendarDays_february_2024:
  "length (filter isCurrentMonth (generateCalendarDays (LocalDate 2024 1 d ms))) = 29"
  by (simp add: generateCalendarDays_total fullYear_def monthLength_def monthStart_def isLeap_def)

lemma generateCalendarDays_february_2023:
  "length (filter isCurrentMonth (generateCalendarDays (LocalDate 2023 1 d ms))) = 28"
  by (simp add: generateCalendarDays_total fullYear_def monthLength_def monthStart_def isLeap_def)

section \<open>The grid at the limit of the time value\<close>

lemma newDate_beyond:
  assumes "100000000 < dayFromYear (fullYear y + m div 12) + monthStart (fullYear y + m div 12) (m mod 12) + d - 1"
  shows "newDate (Some y) (Some m) (Some d) = InvalidDate"
proof -
  obtain y' m' d' where md: "makeDay (fullYear y) m d = (y', m', d')"
    by (cases "makeDay (fullYear y) m d")
  have "dayNumber y' m' d'
      = dayFromYear (fullYear y + m div 12) + monthStart (fullYear y + m div 12) (m mod 12) + d - 1"
    using makeDay_dayNumber [of "fullYear y" m d] by (simp add: md)
  then have "100000000 < dayNumber y' m' d'" using assms by simp
  then have "\<not> \<bar>dayNumber y' m' d' * 86400000 + int 0\<bar> \<le> 8640000000000000" by simp
  then show ?thesis by (simp add: md timeClip_def)
qed

text \<open>At the limit of the time value the grid loses its days: 13 September 275760 is
  the last day a \<^verbatim>\<open>Date\<close> can hold, so \<^verbatim>\<open>new Date(275760, 9, 0)\<close> is invalid, the
  day count of the month is \<^verbatim>\<open>NaN\<close>, and the grid of September 275760 is the last
  day of August followed by 41 cells with an invalid date.\<close>

lemma generateCalendarDays_september_275760:
  "generateCalendarDays (LocalDate 275760 8 d ms)
     = mkCell (LocalDate 275760 7 31 0) False # replicate 41 (mkCell InvalidDate False)"
proof -
  have fy: "fullYear 275760 = 275760" by (simp add: fullYear_def)
  have ml: "monthLength 275760 8 = 30" "monthLength 275760 7 = 31"
    by (simp_all add: monthLength_def monthStart_def isLeap_def)
  have dn: "dayNumber 275760 8 1 = 99999988" "dayNumber 275760 7 31 = 99999987"
    by (simp_all add: dayNumber_def dayFromYear_def monthStart_def isLeap_def)
  have oct: "dayFromYear 275760 + monthStart 275760 9 = 100000018"
    by (simp add: dayFromYear_def monthStart_def isLeap_def)
  have md: "makeDay 275760 8 1 = (275760, 8, 1)" "makeDay 275760 7 31 = (275760, 7, 31)"
    by (simp_all add: makeDay_valid ml)
  have mz: "makeDay 275760 8 0 = (275760, 7, 31)"
    by (simp add: makeDay_zero prevYear_def prevMonth_def ml)
  have tc: "timeClip 275760 8 1 0 = LocalDate 275760 8 1 0"
    "timeClip 275760 7 31 0 = LocalDate 275760 7 31 0"
    by (simp_all add: timeClip_def dn)
  have first: "newDate (Some 275760) (Some 8) (Some 1) = LocalDate 275760 8 1 0"
    by (simp add: fy md tc)
  have gd: "getDay (newDate (Some 275760) (Some 8) (Some 1)) = Some 1"
    unfolding first by (simp add: dn)
  have beyond: "newDate (Some 275760) (Some 9) (Some i) = InvalidDate" if "0 \<le> i" for i
  proof (rule newDate_beyond)
    have "(9::int) div 12 = 0" "(9::int) mod 12 = 9" by simp_all
    then show "100000000 < dayFromYear (fullYear 275760 + 9 div 12)
        + monthStart (fullYear 275760 + 9 div 12) (9 mod 12) + i - 1"
      using that by (simp only: fy oct add_0_right)
  qed
  have dim: "getDate (newDate (Some 275760) (Some 9) (Some 0)) = None"
    by (simp only: beyond [of 0] getDate.simps order_refl)
  have aug: "newDate (Some 275760) (Some 7) (Some 31) = LocalDate 275760 7 31 0"
    by (simp add: fy md tc)
  have pld: "getDate (newDate (Some 275760) (Some 8) (Some 0)) = Some 31"
    by (simp add: fy mz tc)
  have after: "map (\<lambda>i. mkCell (newDate (Some 275760) (Some 9) (Some i)) False) [1..41]
      = replicate 41 (mkCell InvalidDate False)"
  proof -
    have "map (\<lambda>i. mkCell (newDate (Some 275760) (Some 9) (Some i)) False) [1..41]
        = map (\<lambda>i. mkCell InvalidDate False) [1..41]"
    proof (rule map_cong [OF refl])
      fix i :: int assume "i \<in> set [1..41]"
      then have "0 \<le> i" by simp
      then show "mkCell (newDate (Some 275760) (Some 9) (Some i)) False = mkCell InvalidDate False"
        by (simp only: beyond)
    qed
    then show ?thesis by (simp add: map_replicate_const)
  qed
  show ?thesis
    unfolding generateCalendarDays_def Let_def
    by (simp add: gd dim pld aug after plus_num_def countDown_def countUp_def del: newDate.simps)
qed

lemma september_275760_current:
  "filter isCurrentMonth (generateCalendarDays (LocalDate 275760 8 d ms)) = []
   \<and> trueDayCount 275760 8 = 30"
  by (simp add: generateCalendarDays_september_275760 isCurrentMonth_mkCell trueDayCount_def)

section \<open>Rounding to a double\<close>

lemma roundEven_cases: "roundEven x = \<lfloor>x\<rfloor> \<or> roundEven x = \<lfloor>x\<rfloor> + 1"
  by (simp add: roundEven_def Let_def)

lemma roundEven_of_int: "roundEven (of_int n) = n"
  by (simp add: roundEven_def)

lemma roundEven_le:
  assumes "x \<le> of_int n"
  shows "roundEven x \<le> n"
proof (cases "x = of_int n")
  case True
  then show ?thesis by (simp add: roundEven_of_int)
next
  case False
  then have "x < of_int n" using assms by simp
  then have "\<lfloor>x\<rfloor> < n" by (simp add: floor_less_iff)
  then show ?thesis using roundEven_cases [of x] by auto
qed

lemma roundEven_ge:
  assumes "of_int n \<le> x"
  shows "n \<le> roundEven x"
proof -
  have "n \<le> \<lfloor>x\<rfloor>" using assms by (simp add: le_floor_iff)
  then show ?thesis using roundEven_cases [of x] by auto
qed

lemma roundEven_error: "\<bar>of_int (roundEven x) - x\<bar> \<le> 1 / 2"
proof -
  define r where "r = x - of_int \<lfloor>x\<rfloor>"
  have r: "0 \<le> r" "r < 1" unfolding r_def by linarith+
  have x: "x = of_int \<lfloor>x\<rfloor> + r" by (simp add: r_def)
  consider "r < 1 / 2" | "1 / 2 < r" | "r = 1 / 2" by linarith
  then show ?thesis
  proof cases
    case 1
    then have "roundEven x = \<lfloor>x\<rfloor>" by (simp add: roundEven_def Let_def r_def)
    then show ?thesis using 1 r x by simp
  next
    case 2
    then have "roundEven x = \<lfloor>x\<rfloor> + 1" by (simp add: roundEven_def Let_def r_def)
    then show ?thesis using 2 r x by simp
  next
    case 3
    then show ?thesis using roundEven_cases [of x] x by auto
  qed
qed

lemma power_int_le_imp_less_exp_any:
  assumes "(2::rat) powi a < 2 powi b"
  shows "a < b"
proof (rule ccontr)
  assume "\<not> a < b"
  then have "b \<le> a" by simp
  then have "(2::rat) powi b \<le> 2 powi a" by (intro power_int_increasing) simp_all
  then show False using assms by simp
qed

lemma two_powi_pos: "(0::rat) < 2 powi k"
  by simp

lemma of_int_less_two_powi:
  fixes p :: int
  assumes "0 < p"
  shows "(2::rat) powi (bitlen p - 1) \<le> of_int p \<and> (of_int p :: rat) < 2 powi (bitlen p)"
proof -
  have b: "2 ^ nat (bitlen p - 1) \<le> p \<and> p < 2 ^ nat (bitlen p)" by (rule bitlen_bounds [OF assms])
  have pos: "0 < bitlen p"
  proof (rule ccontr)
    assume "\<not> 0 < bitlen p"
    then have "nat (bitlen p) = 0" by simp
    then have "p < 1" using b by simp
    then show False using assms by simp
  qed
  have "(of_int (2 ^ nat (bitlen p - 1)) :: rat) \<le> of_int p" using b by (simp only: of_int_le_iff)
  moreover have "(of_int p :: rat) < of_int (2 ^ nat (bitlen p))" using b by (simp only: of_int_less_iff)
  ultimately show ?thesis using pos by (simp add: power_int_def)
qed

lemma ilog2_bounds:
  assumes "0 < x"
  shows "2 powi (ilog2 x) \<le> x \<and> x < 2 powi (ilog2 x + 1)"
proof -
  obtain p q where pq: "quotient_of x = (p, q)" by (cases "quotient_of x")
  have q: "0 < q" by (rule quotient_of_denom_pos [OF pq])
  have x: "x = of_int p / of_int q" by (rule quotient_of_div [OF pq])
  have p: "0 < p" using assms q by (simp add: x zero_less_divide_iff)
  define k where "k = bitlen p - bitlen q"
  note bp = of_int_less_two_powi [OF p] and bq = of_int_less_two_powi [OF q]
  have qpos: "(0::rat) < of_int q" using q by simp
  have "x < 2 powi (bitlen p) / 2 powi (bitlen q - 1)"
  proof -
    have "x < 2 powi (bitlen p) / of_int q" using bp qpos by (simp add: x divide_strict_right_mono)
    also have "\<dots> \<le> 2 powi (bitlen p) / 2 powi (bitlen q - 1)"
      using bq qpos by (intro divide_left_mono mult_pos_pos) simp_all
    finally show ?thesis .
  qed
  then have hi: "x < 2 powi (k + 1)" by (simp add: k_def power_int_diff power_int_add)
  have "2 powi (bitlen p - 1) / 2 powi (bitlen q) < x"
  proof -
    have "(2::rat) powi (bitlen p - 1) / 2 powi (bitlen q) < 2 powi (bitlen p - 1) / of_int q"
      using bq qpos by (intro divide_strict_left_mono) simp_all
    also have "\<dots> \<le> x" using bp qpos by (simp add: x divide_right_mono)
    finally show ?thesis .
  qed
  then have lo: "2 powi (k - 1) < x" by (simp add: k_def power_int_diff)
  have "ilog2 x = (if 2 powi k \<le> x then k else k - 1)"
    by (simp add: ilog2_def pq k_def Let_def)
  then show ?thesis using hi lo by (auto simp add: not_le)
qed


lemma toDouble_zero: "toDouble 0 = 0"
  by (simp add: toDouble_def)

lemma toDouble_nonneg:
  assumes "0 \<le> x"
  shows "0 \<le> toDouble x"
proof (cases "x = 0")
  case True
  then show ?thesis by (simp add: toDouble_zero)
next
  case False
  define e where "e = max (ilog2 \<bar>x\<bar> - 52) (- 1074)"
  have "of_int 0 \<le> x / 2 powi e" using assms by simp
  then have "0 \<le> roundEven (x / 2 powi e)" by (rule roundEven_ge)
  then show ?thesis using False by (simp add: toDouble_def Let_def e_def [symmetric])
qed

text \<open>A non-negative integer below \<open>2 ^ 53\<close> is a double, and rounding does not cross it.\<close>

lemma toDouble_le_int:
  assumes "0 < x" "x \<le> of_int n" "n < 2 ^ 53"
  shows "toDouble x \<le> of_int n"
proof -
  define k where "k = ilog2 x"
  define e where "e = max (k - 52) (- 1074)"
  have "(2::rat) powi k \<le> x" using ilog2_bounds [OF assms(1)] by (simp add: k_def)
  also have "x \<le> of_int n" by (rule assms(2))
  also have "(of_int n :: rat) < of_int (2 ^ 53)" using assms(3) by (simp only: of_int_less_iff)
  finally have "(2::rat) powi k < 2 powi 53" by simp
  then have "k < 53" by (rule power_int_le_imp_less_exp_any)
  then have e: "e \<le> 0" by (simp add: e_def)
  define N where "N = n * 2 ^ nat (- e)"
  have u: "(2::rat) powi e = 1 / 2 ^ nat (- e)"
    using e by (cases "e = 0") (simp_all add: power_int_def inverse_eq_divide power_one_over)
  have "x / 2 powi e \<le> of_int n / 2 powi e" using assms(2) by (simp add: divide_right_mono)
  also have "\<dots> = of_int N" by (simp add: u N_def)
  finally have "roundEven (x / 2 powi e) \<le> N" by (rule roundEven_le)
  then have "(of_int (roundEven (x / 2 powi e)) :: rat) \<le> of_int N" by (simp only: of_int_le_iff)
  then have "of_int (roundEven (x / 2 powi e)) * 2 powi e \<le> of_int N * (2::rat) powi e"
    by (intro mult_right_mono) simp_all
  also have "\<dots> = of_int n" by (simp add: u N_def)
  finally show ?thesis using assms(1) by (simp add: toDouble_def Let_def k_def e_def)
qed

text \<open>In the range of the normal doubles the rounding error is at most the fraction
  \<open>2 ^ -53\<close> of the number.\<close>

lemma toDouble_error:
  assumes "2 powi (- 1022) \<le> x"
  shows "\<bar>toDouble x - x\<bar> \<le> x / 2 ^ 53"
proof -
  have pos: "0 < x" using assms two_powi_pos [of "- 1022"] by (rule less_le_trans [rotated])
  define k where "k = ilog2 x"
  have b: "(2::rat) powi k \<le> x" "x < 2 powi (k + 1)" using ilog2_bounds [OF pos] by (simp_all add: k_def)
  have "(2::rat) powi (- 1022) < 2 powi (k + 1)" using assms b(2) by (rule le_less_trans)
  then have "- 1022 < k + 1" by (rule power_int_le_imp_less_exp_any)
  then have e: "max (k - 52) (- 1074) = k - 52" by simp
  define u where "u = (2::rat) powi (k - 52)"
  have upos: "0 < u" by (simp add: u_def)
  have t: "toDouble x = of_int (roundEven (x / u)) * u"
    using pos by (simp add: toDouble_def Let_def k_def [symmetric] e u_def)
  have "toDouble x - x = (of_int (roundEven (x / u)) - x / u) * u"
    using upos by (simp add: t algebra_simps)
  then have "\<bar>toDouble x - x\<bar> = \<bar>of_int (roundEven (x / u)) - x / u\<bar> * u"
    using upos by (simp add: abs_mult)
  also have "\<dots> \<le> 1 / 2 * u"
    using upos roundEven_error [of "x / u"] by (intro mult_right_mono) simp_all
  also have "\<dots> = 2 powi k / 2 ^ 53"
    by (simp add: u_def power_int_diff)
  also have "\<dots> \<le> x / 2 ^ 53" using b(1) by (simp add: divide_right_mono)
  finally show ?thesis .
qed

section \<open>Facts about the statistics\<close>

lemma getProp_JObj: "getProp (JObj m) k = (case map_of m k of None \<Rightarrow> JUndefined | Some x \<Rightarrow> x)"
  by (simp add: getProp_def)

lemma truthy_getProp_JObj:
  "truthy (getProp (JObj m) k) = (\<exists>v. map_of m k = Some v \<and> truthy v)"
  by (simp add: getProp_def split: option.splits)

lemma set_sortedDates:
  "set (sortedDates cd) = {k \<in> fst ` set cd. truthy (getProp (JObj cd) k)}"
  by (auto simp add: sortedDates_def)

lemma sorted_sortedDates: "sorted (sortedDates cd)"
  by (simp add: sortedDates_def)

lemma sortedDates_Nil: "sortedDates [] = []"
  by (simp add: sortedDates_def)

lemma completed_sortedDates:
  assumes "truthy (getProp (JObj cd) k)"
  shows "k \<in> set (sortedDates cd)"
proof -
  from assms obtain v where "map_of cd k = Some v" by (auto simp add: truthy_getProp_JObj)
  then have "k \<in> fst ` set cd" by (metis map_of_SomeD fst_conv image_eqI)
  with assms show ?thesis by (simp add: set_sortedDates)
qed

lemma stats_empty:
  assumes "sortedDates cd = []"
  shows "stats legacy now cd calendarDays =
    \<lparr>currentStreak = 0, longestStreak = 0, monthlyPercentage = JNum 0, completedInMonth = 0,
     totalDaysInMonth = length (filter isCurrentMonth calendarDays)\<rparr>"
  using assms by (simp add: stats_def)

lemma stats_total:
  "totalDaysInMonth (stats legacy now cd calendarDays) = length (filter isCurrentMonth calendarDays)"
  by (simp add: stats_def Let_def split: prod.splits)

lemma completedCells_empty:
  assumes "sortedDates cd = []"
  shows "completedCells cd calendarDays = []"
proof -
  have "\<not> truthy (getProp (JObj cd) k)" for k
    using completed_sortedDates [of cd k] assms by auto
  then show ?thesis by (simp add: completedCells_def)
qed

lemma stats_completed:
  "completedInMonth (stats legacy now cd calendarDays) = length (completedCells cd calendarDays)"
proof (cases "sortedDates cd = []")
  case True
  then show ?thesis by (simp add: stats_empty completedCells_empty)
next
  case False
  then show ?thesis by (simp add: stats_def Let_def completedCells_def split: prod.splits)
qed

lemma stats_completed_le:
  "completedInMonth (stats legacy now cd calendarDays) \<le> totalDaysInMonth (stats legacy now cd calendarDays)"
  unfolding stats_completed stats_total completedCells_def by (rule length_filter_le)

lemma stats_percentage:
  "monthlyPercentage (stats legacy now cd calendarDays) =
     (if sortedDates cd = [] \<or> totalDaysInMonth (stats legacy now cd calendarDays) = 0 then JNum 0
      else JStr (toFixed0 (fmul (fdiv (of_nat (completedInMonth (stats legacy now cd calendarDays)))
                                      (of_nat (totalDaysInMonth (stats legacy now cd calendarDays)))) 100)))"
proof (cases "sortedDates cd = []")
  case True
  then show ?thesis by (simp add: stats_empty)
next
  case False
  then show ?thesis
    unfolding stats_completed stats_total
    by (simp add: stats_def Let_def completedCells_def split: prod.splits)
qed

lemma showInt_nonneg: "0 \<le> i \<Longrightarrow> showInt i = showNat (nat i)"
  by (simp add: showInt_def)

lemma completed_pos_sortedDates:
  assumes "0 < completedInMonth (stats legacy now cd calendarDays)"
  shows "sortedDates cd \<noteq> []"
proof
  assume "sortedDates cd = []"
  then have "completedCells cd calendarDays = []" by (rule completedCells_empty)
  with assms show False by (simp add: stats_completed)
qed

section \<open>The margin of the rounding\<close>

lemma twice_not_one: "2 * (x::int) \<noteq> 1"
  by presburger

text \<open>For a month of 28 to 31 days the exact quotient is at least 1/62 away from every
  rounding boundary of \<^verbatim>\<open>toFixed(0)\<close>.\<close>

lemma percentage_no_tie:
  fixes c k :: int and t :: nat
  assumes "28 \<le> t" "t \<le> 31"
  shows "200 * c - (2 * k + 1) * int t \<noteq> 0"
proof -
  consider "t = 28" | "t = 29" | "t = 30" | "t = 31" using assms by arith
  then show ?thesis
  proof cases
    case 1
    have "200 * c - (2 * k + 1) * 28 = 4 * (2 * (25 * c - 7 * k - 4) + 1)" by simp
    then show ?thesis using 1 twice_not_one [of "- (25 * c - 7 * k - 4)"] by simp
  next
    case 2
    have "200 * c - (2 * k + 1) * 29 = 2 * (100 * c - 29 * k - 15) + 1" by simp
    then show ?thesis using 2 twice_not_one [of "- (100 * c - 29 * k - 15)"] by simp
  next
    case 3
    have "200 * c - (2 * k + 1) * 30 = 2 * (2 * (50 * c - 15 * k - 8) + 1)" by simp
    then show ?thesis using 3 twice_not_one [of "- (50 * c - 15 * k - 8)"] by simp
  next
    case 4
    have "200 * c - (2 * k + 1) * 31 = 2 * (100 * c - 31 * k - 16) + 1" by simp
    then show ?thesis using 4 twice_not_one [of "- (100 * c - 31 * k - 16)"] by simp
  qed
qed

lemma percentage_margin:
  fixes c t :: nat and k :: int
  assumes "28 \<le> t" "t \<le> 31"
  shows "1 / 62 \<le> \<bar>of_nat c / of_nat t * 100 - (of_int k + 1 / 2) :: rat\<bar>"
proof -
  define z where "z = 200 * int c - (2 * k + 1) * int t"
  have "z \<noteq> 0" unfolding z_def by (rule percentage_no_tie [OF assms])
  then have one: "(1::rat) \<le> of_int \<bar>z\<bar>" by (simp add: of_int_1_le_iff)
  have t: "(0::rat) < of_nat t" "(of_nat t :: rat) \<le> 31" using assms by simp_all
  have "of_nat c / of_nat t * 100 - (of_int k + 1 / 2) = (of_int z :: rat) / (2 * of_nat t)"
    using t by (simp add: z_def field_simps)
  then have e: "\<bar>of_nat c / of_nat t * 100 - (of_int k + 1 / 2) :: rat\<bar>
      = of_int \<bar>z\<bar> / (2 * of_nat t)"
    using t by (simp add: abs_divide)
  have "(1 / 62 :: rat) \<le> 1 / (2 * of_nat t)" using t by (simp add: field_simps)
  also have "\<dots> \<le> of_int \<bar>z\<bar> / (2 * of_nat t)"
    using one t by (simp add: divide_right_mono)
  finally show ?thesis by (simp only: e)
qed

text \<open>The percentage in double precision: it lies between 0 and 100, and within
  \<open>200 / 2 ^ 53\<close> of the exact quotient.\<close>

lemma toDouble_unit:
  assumes "0 \<le> x" "x \<le> of_int n" "n < 2 ^ 53"
  shows "0 \<le> toDouble x \<and> toDouble x \<le> of_int n"
proof (cases "x = 0")
  case True
  then show ?thesis using assms(2) by (simp add: toDouble_zero)
next
  case False
  then have "0 < x" using assms(1) by simp
  then show ?thesis using toDouble_nonneg [OF assms(1)] toDouble_le_int [OF _ assms(2,3)] by simp
qed

lemma percentage_double_range:
  fixes c t :: nat
  assumes "c \<le> t" "0 < t"
  shows "0 \<le> fmul (fdiv (of_nat c) (of_nat t)) 100 \<and> fmul (fdiv (of_nat c) (of_nat t)) 100 \<le> 100"
proof -
  define x :: rat where "x = of_nat c / of_nat t"
  have x: "0 \<le> x" "x \<le> of_int 1" using assms by (simp_all add: x_def divide_le_eq)
  have x1: "0 \<le> toDouble x \<and> toDouble x \<le> of_int 1" by (rule toDouble_unit [OF x]) simp
  then have y: "0 \<le> toDouble x * 100" "toDouble x * 100 \<le> of_int 100" by simp_all
  have "0 \<le> toDouble (toDouble x * 100) \<and> toDouble (toDouble x * 100) \<le> of_int 100"
    by (rule toDouble_unit [OF y]) simp
  then show ?thesis by (simp add: fmul_def fdiv_def x_def)
qed

lemma percentage_double_error:
  fixes c t :: nat
  assumes "0 < c" "c \<le> t" "t \<le> 31"
  shows "\<bar>fmul (fdiv (of_nat c) (of_nat t)) 100 - of_nat c / of_nat t * 100\<bar> \<le> 200 / 2 ^ 53"
proof -
  define x :: rat where "x = of_nat c / of_nat t"
  define x1 where "x1 = toDouble x"
  define y1 where "y1 = toDouble (x1 * 100)"
  have t: "(0::rat) < of_nat t" "(of_nat t :: rat) \<le> 31" using assms by simp_all
  have small: "(2::rat) powi (- 1022) \<le> 1 / 64"
  proof -
    have "(2::rat) powi (- 1022) \<le> 2 powi (- 6)" by (intro power_int_increasing) simp_all
    also have "(2::rat) powi (- 6) = 1 / 64" by (simp add: power_int_def power_divide)
    finally show ?thesis .
  qed
  have "(1::rat) / 31 \<le> 1 / of_nat t" using t by (simp add: field_simps)
  also have "\<dots> \<le> x"
    unfolding x_def using assms(1) t by (intro divide_right_mono) simp_all
  finally have xlo: "1 / 31 \<le> x" .
  have xhi: "x \<le> 1" using assms by (simp add: x_def divide_le_eq)
  define E :: rat where "E = 1 / 2 ^ 53"
  have E: "0 < E" "E \<le> 1 / 1000" by (simp_all add: E_def)
  have "\<bar>x1 - x\<bar> \<le> x / 2 ^ 53"
    unfolding x1_def using small xlo by (intro toDouble_error) simp
  also have "\<dots> = x * E" by (simp add: E_def)
  also have "\<dots> \<le> 1 * E" using xhi E(1) by (intro mult_right_mono) simp_all
  finally have e1: "\<bar>x1 - x\<bar> \<le> E" by simp
  have x1lo: "1 / 64 \<le> x1" using e1 E(2) xlo by linarith
  have x1hi: "x1 \<le> 1"
    using toDouble_unit [of x 1] xlo xhi by (simp add: x1_def)
  have "\<bar>y1 - x1 * 100\<bar> \<le> x1 * 100 / 2 ^ 53"
    unfolding y1_def using small x1lo by (intro toDouble_error) simp
  also have "\<dots> = x1 * (100 * E)" by (simp add: E_def)
  also have "\<dots> \<le> 1 * (100 * E)" using x1hi E(1) by (intro mult_right_mono) simp_all
  finally have e2: "\<bar>y1 - x1 * 100\<bar> \<le> 100 * E" by simp
  have "\<bar>y1 - x * 100\<bar> \<le> 200 * E" using e1 e2 by linarith
  then show ?thesis by (simp add: y1_def x1_def x_def fmul_def fdiv_def E_def)
qed

text \<open>For a month of 28 to 31 days the double-precision percentage rounds to the same
  integer as the exact quotient.\<close>

lemma percentage_double_exact:
  fixes c t :: nat
  assumes "28 \<le> t" "t \<le> 31" "c \<le> t"
  shows "round (fmul (fdiv (of_nat c) (of_nat t)) 100) = round (of_nat c / of_nat t * 100 :: rat)"
proof (cases "c = 0")
  case True
  then show ?thesis by (simp add: fmul_def fdiv_def toDouble_zero)
next
  case False
  define z :: rat where "z = of_nat c / of_nat t * 100"
  define y where "y = fmul (fdiv (of_nat c) (of_nat t)) 100"
  define n where "n = round z"
  have err: "\<bar>y - z\<bar> \<le> 200 / 2 ^ 53"
    unfolding y_def z_def using False assms(2,3) by (intro percentage_double_error) simp_all
  have n: "of_int n \<le> z + 1 / 2" "z + 1 / 2 < of_int n + 1"
    unfolding n_def round_def by linarith+
  have m1: "1 / 62 \<le> \<bar>z - (of_int n + 1 / 2)\<bar>"
    unfolding z_def by (rule percentage_margin [OF assms(1,2)])
  have m2: "1 / 62 \<le> \<bar>z - (of_int (n - 1) + 1 / 2)\<bar>"
    unfolding z_def by (rule percentage_margin [OF assms(1,2)])
  have lo: "of_int n - 1 / 2 + 1 / 62 \<le> z" using m2 n by simp
  have hi: "z \<le> of_int n + 1 / 2 - 1 / 62" using m1 n by simp
  have "(200::rat) / 2 ^ 53 < 1 / 62" by simp
  with err have "\<bar>y - z\<bar> < 1 / 62" by (rule le_less_trans)
  then have "y - z < 1 / 62" "z - y < 1 / 62" by (simp_all only: abs_less_iff minus_diff_eq)
  then have "of_int n \<le> y + 1 / 2" "y + 1 / 2 < of_int n + 1" using lo hi by linarith+
  then have "round y = n" unfolding round_def by linarith
  then show ?thesis by (simp only: y_def n_def z_def)
qed

section \<open>The streak loop and the walk of the specification\<close>

lemma runningStreaks_nonempty: "runningStreaks r gs \<noteq> []"
  by (cases gs) simp_all

lemma runningStreaks_hd_le: "r \<le> Max (set (runningStreaks r gs))"
  by (cases gs) simp_all

lemma Max_runningStreaks_Cons:
  "Max (set (runningStreaks r (g # gs))) = max r (Max (set (runningStreaks (extend r g) gs)))"
  by (simp add: runningStreaks_nonempty)

lemma last_runningStreaks_Cons:
  "last (runningStreaks r (g # gs)) = last (runningStreaks (extend r g) gs)"
  by (simp add: runningStreaks_nonempty)

lemma extend_cases:
  "extend r g = r + 1 \<or> extend r g = 1 \<or> extend r g = r"
  by (cases g) auto

lemma streakLoop_step:
  assumes step: "streakLoop legacy ks (longest, temp) = streakLoop legacy rest (l, t)"
    and spec: "runningStreaks temp gs = temp # runningStreaks t gs'"
    and ih: "max (fst (streakLoop legacy rest (l, t))) (snd (streakLoop legacy rest (l, t)))
               = max l (Max (set (runningStreaks t gs')))
             \<and> snd (streakLoop legacy rest (l, t)) = last (runningStreaks t gs')"
    and rel: "\<And>M. t \<le> M \<Longrightarrow> max l M = max longest (max temp M)"
  shows "max (fst (streakLoop legacy ks (longest, temp))) (snd (streakLoop legacy ks (longest, temp)))
           = max longest (Max (set (runningStreaks temp gs)))
         \<and> snd (streakLoop legacy ks (longest, temp)) = last (runningStreaks temp gs)"
proof -
  have m: "Max (set (runningStreaks temp gs)) = max temp (Max (set (runningStreaks t gs')))"
    by (simp add: spec runningStreaks_nonempty)
  have l: "last (runningStreaks temp gs) = last (runningStreaks t gs')"
    by (simp add: spec runningStreaks_nonempty)
  have r: "max l (Max (set (runningStreaks t gs')))
      = max longest (max temp (Max (set (runningStreaks t gs'))))"
    by (rule rel [OF runningStreaks_hd_le])
  have "max (fst (streakLoop legacy rest (l, t))) (snd (streakLoop legacy rest (l, t)))
      = max l (Max (set (runningStreaks t gs')))"
    by (rule conjunct1 [OF ih])
  also have "\<dots> = max longest (max temp (Max (set (runningStreaks t gs'))))"
    by (rule r)
  also have "\<dots> = max longest (Max (set (runningStreaks temp gs)))"
    by (simp only: m)
  finally have "max (fst (streakLoop legacy rest (l, t))) (snd (streakLoop legacy rest (l, t)))
      = max longest (Max (set (runningStreaks temp gs)))" .
  moreover have "snd (streakLoop legacy rest (l, t)) = last (runningStreaks temp gs)"
    by (simp only: conjunct2 [OF ih] l)
  ultimately show ?thesis unfolding step by (rule conjI)
qed

lemma streakLoop_runningStreaks:
  assumes "ks \<noteq> []"
  shows "max (fst (streakLoop legacy ks (longest, temp))) (snd (streakLoop legacy ks (longest, temp)))
           = max longest (Max (set (runningStreaks temp (gaps legacy ks))))
         \<and> snd (streakLoop legacy ks (longest, temp)) = last (runningStreaks temp (gaps legacy ks))"
  using assms
proof (induction ks arbitrary: longest temp)
  case Nil
  then show ?case by simp
next
  case (Cons lst rest)
  show ?case
  proof (cases rest)
    case Nil
    then show ?thesis by simp
  next
    case (Cons cur rest')
    have ne: "rest \<noteq> []" using Cons by simp
    note ih = Cons.IH [OF ne]
    define g where "g = diffDays legacy cur lst"
    have spec: "runningStreaks temp (gaps legacy (lst # rest))
        = temp # runningStreaks (extend temp g) (gaps legacy rest)"
      by (simp add: Cons g_def)
    show ?thesis
    proof (cases g)
      case None
      then have step: "streakLoop legacy (lst # rest) (longest, temp) = streakLoop legacy rest (longest, temp)"
        by (simp add: Cons g_def [symmetric])
      show ?thesis
        by (rule streakLoop_step [OF step spec [unfolded None extend.simps] ih]) simp
    next
      case (Some n)
      consider "n = 1" | "1 < n" | "n < 1" by linarith
      then show ?thesis
      proof cases
        case 1
        then have step: "streakLoop legacy (lst # rest) (longest, temp)
            = streakLoop legacy rest (longest, temp + 1)"
          using Some by (simp add: Cons g_def [symmetric])
        have e: "extend temp g = temp + 1" using Some 1 by simp
        show ?thesis
          by (rule streakLoop_step [OF step spec [unfolded e] ih]) simp
      next
        case 2
        then have step: "streakLoop legacy (lst # rest) (longest, temp)
            = streakLoop legacy rest (max longest temp, 1)"
          using Some by (simp add: Cons g_def [symmetric])
        have e: "extend temp g = 1" using Some 2 by simp
        show ?thesis
          by (rule streakLoop_step [OF step spec [unfolded e] ih]) (simp add: max.assoc)
      next
        case 3
        then have step: "streakLoop legacy (lst # rest) (longest, temp)
            = streakLoop legacy rest (longest, temp)"
          using Some by (simp add: Cons g_def [symmetric])
        have e: "extend temp g = temp" using Some 3 by simp
        show ?thesis
          by (rule streakLoop_step [OF step spec [unfolded e] ih]) simp
      qed
    qed
  qed
qed

lemma runningStreaks_pos: "0 < r \<Longrightarrow> x \<in> set (runningStreaks r gs) \<Longrightarrow> 0 < x"
proof (induction gs arbitrary: r)
  case Nil
  then show ?case by simp
next
  case (Cons g gs)
  have "0 < extend r g" using Cons.prems(1) extend_cases [of r g] by auto
  then show ?case using Cons by auto
qed

lemma last_runningStreaks_pos: "0 < last (runningStreaks 1 gs)"
  using runningStreaks_pos [of 1 "last (runningStreaks 1 gs)" gs] runningStreaks_nonempty [of 1 gs]
  by simp

lemma stats_longest:
  assumes "sortedDates cd \<noteq> []"
  shows "longestStreak (stats legacy now cd calendarDays)
    = Max (set (runningStreaks 1 (gaps legacy (sortedDates cd))))"
proof -
  have "longestStreak (stats legacy now cd calendarDays)
     = max (fst (streakLoop legacy (sortedDates cd) (1, 1))) (snd (streakLoop legacy (sortedDates cd) (1, 1)))"
    using assms by (simp add: stats_def Let_def split: prod.splits)
  also have "\<dots> = max 1 (Max (set (runningStreaks 1 (gaps legacy (sortedDates cd)))))"
    using streakLoop_runningStreaks [OF assms] by blast
  also have "\<dots> = Max (set (runningStreaks 1 (gaps legacy (sortedDates cd))))"
    using runningStreaks_hd_le [of 1 "gaps legacy (sortedDates cd)"] by (simp add: max_def)
  finally show ?thesis .
qed

lemma stats_current:
  assumes "sortedDates cd \<noteq> []"
  shows "currentStreak (stats legacy now cd calendarDays)
    = (if last (sortedDates cd) = getDateKey now
          \<or> last (sortedDates cd) = getDateKey (setDate now (plus_num (getDate now) (- 1)))
       then last (runningStreaks 1 (gaps legacy (sortedDates cd))) else 0)"
proof -
  have "snd (streakLoop legacy (sortedDates cd) (1, 1)) = last (runningStreaks 1 (gaps legacy (sortedDates cd)))"
    using streakLoop_runningStreaks [OF assms] by blast
  then show ?thesis
    using assms by (simp add: stats_def Let_def case_prod_beta)
qed

lemma validDate_month:
  assumes "validDate (LocalDate y m d ms)"
  shows "0 \<le> m" "m \<le> 11" "1 \<le> d" "d \<le> monthLength y m"
  using assms by (simp_all add: monthLength_true)

lemma validDate_time: "validDate (LocalDate y m d ms) \<Longrightarrow> ms < 86400000"
  by simp

text \<open>\<^verbatim>\<open>yesterday.setDate(today.getDate() - 1)\<close> is the calendar day before today, for
  every day of the years from -271820 to 275759.\<close>

lemma setDate_yesterday:
  assumes "validDate (LocalDate y m d ms)" and "- 271820 \<le> y" "y \<le> 275759"
  shows "setDate (LocalDate y m d ms) (plus_num (getDate (LocalDate y m d ms)) (- 1))
    = dayBefore (LocalDate y m d ms)"
proof -
  note v = validDate_month [OF assms(1)] and t = validDate_time [OF assms(1)]
  show ?thesis
  proof (cases "1 < d")
    case True
    then have "makeDay y m (d - 1) = (y, m, d - 1)" using v by (simp add: makeDay_valid)
    moreover have "timeClip y m (d - 1) ms = LocalDate y m (d - 1) ms"
      using v t True assms(2,3) by (intro timeClip_valid) simp_all
    ultimately show ?thesis using True by (simp add: plus_num_def)
  next
    case False
    then have d: "d = 1" using v by simp
    define pl where "pl = monthLength (prevYear y m) (prevMonth m)"
    have "makeDay y m 0 = (prevYear y m, prevMonth m, pl)"
      using v by (simp add: makeDay_zero pl_def)
    moreover have "pl = trueDayCount (prevYear y m) (prevMonth m)"
      using prevMonth_range [OF v(1,2)] by (simp add: monthLength_true pl_def)
    moreover have "timeClip (prevYear y m) (prevMonth m) pl ms = LocalDate (prevYear y m) (prevMonth m) pl ms"
      using v t assms(2,3) prevMonth_range [OF v(1,2)]
        monthLength_bounds [of "prevMonth m" "prevYear y m"]
      by (intro timeClip_valid) (auto simp add: pl_def prevYear_def prevMonth_def)
    ultimately show ?thesis by (simp add: plus_num_def d)
  qed
qed

text \<open>The current streak is the final running streak length exactly when the last of
  the sorted keys, the greatest completed key in the order of strings, is the key of
  today or of the day before; otherwise it is 0.\<close>

lemma stats_currentStreak_last_key:
  assumes "sortedDates cd \<noteq> []" and "now = LocalDate y m d ms" and "validDate now"
    and "- 271820 \<le> y" "y \<le> 275759"
  shows "(currentStreak (stats legacy now cd calendarDays)
            = last (runningStreaks 1 (gaps legacy (sortedDates cd)))
          \<longleftrightarrow> last (sortedDates cd) = getDateKey now
              \<or> last (sortedDates cd) = getDateKey (dayBefore now))
     \<and> (last (sortedDates cd) \<noteq> getDateKey now \<and> last (sortedDates cd) \<noteq> getDateKey (dayBefore now)
          \<longrightarrow> currentStreak (stats legacy now cd calendarDays) = 0)"
proof -
  have y: "setDate now (plus_num (getDate now) (- 1)) = dayBefore now"
    using assms(3) unfolding assms(2) by (rule setDate_yesterday [OF _ assms(4,5)])
  have cur: "currentStreak (stats legacy now cd calendarDays)
    = (if last (sortedDates cd) = getDateKey now \<or> last (sortedDates cd) = getDateKey (dayBefore now)
       then last (runningStreaks 1 (gaps legacy (sortedDates cd))) else 0)"
    using stats_current [OF assms(1), of legacy now calendarDays] by (simp only: y)
  have pos: "0 < last (runningStreaks 1 (gaps legacy (sortedDates cd)))"
    by (rule last_runningStreaks_pos)
  show ?thesis using cur pos by auto
qed

section \<open>The value of the percentage\<close>

text \<open>
  \<open>monthlyPercentage\<close> is the decimal string of an integer from 0 to 100 when the month
  has days and the map has a completed day, and the number 0 otherwise. For a month of
  28 to 31 days the integer is the exact quotient
  \<open>completedInMonth / totalDaysInMonth * 100\<close> rounded.
\<close>

lemma stats_monthlyPercentage_value:
  fixes legacy now cd calendarDays
  defines "s \<equiv> stats legacy now cd calendarDays"
  defines "q \<equiv> round (fmul (fdiv (of_nat (completedInMonth s)) (of_nat (totalDaysInMonth s))) 100)"
  shows "(sortedDates cd \<noteq> [] \<and> 0 < totalDaysInMonth s \<longrightarrow> monthlyPercentage s = JStr (showNat (nat q)))
    \<and> (sortedDates cd = [] \<or> totalDaysInMonth s = 0 \<longrightarrow> monthlyPercentage s = JNum 0)
    \<and> 0 \<le> q \<and> q \<le> 100
    \<and> (28 \<le> totalDaysInMonth s \<and> totalDaysInMonth s \<le> 31 \<longrightarrow>
         q = round (of_nat (completedInMonth s) / of_nat (totalDaysInMonth s) * 100 :: rat))"
proof -
  define y where "y = fmul (fdiv (of_nat (completedInMonth s)) (of_nat (totalDaysInMonth s))) 100"
  have le: "completedInMonth s \<le> totalDaysInMonth s"
    unfolding s_def by (rule stats_completed_le)
  have y: "0 \<le> y \<and> y \<le> 100"
  proof (cases "totalDaysInMonth s = 0")
    case True
    then show ?thesis by (simp add: y_def fdiv_def fmul_def toDouble_zero)
  next
    case False
    then show ?thesis unfolding y_def using le by (intro percentage_double_range) simp_all
  qed
  have "round (0::rat) \<le> round y" "round y \<le> round (100::rat)"
    using y by (simp_all only: round_mono)
  then have range: "0 \<le> q \<and> q \<le> 100" by (simp add: q_def y_def)
  have pct: "monthlyPercentage s =
     (if sortedDates cd = [] \<or> totalDaysInMonth s = 0 then JNum 0 else JStr (toFixed0 y))"
    unfolding s_def y_def by (rule stats_percentage)
  have one: "sortedDates cd \<noteq> [] \<and> 0 < totalDaysInMonth s \<longrightarrow> monthlyPercentage s = JStr (showNat (nat q))"
    using range y by (simp add: pct toFixed0_def q_def y_def showInt_nonneg)
  have two: "sortedDates cd = [] \<or> totalDaysInMonth s = 0 \<longrightarrow> monthlyPercentage s = JNum 0"
    by (auto simp add: pct)
  have three: "28 \<le> totalDaysInMonth s \<and> totalDaysInMonth s \<le> 31 \<longrightarrow>
      q = round (of_nat (completedInMonth s) / of_nat (totalDaysInMonth s) * 100 :: rat)"
  proof
    assume "28 \<le> totalDaysInMonth s \<and> totalDaysInMonth s \<le> 31"
    then show "q = round (of_nat (completedInMonth s) / of_nat (totalDaysInMonth s) * 100 :: rat)"
      unfolding q_def using le by (intro percentage_double_exact) simp_all
  qed
  from one two range three show ?thesis by blast
qed

section \<open>Evaluated examples\<close>

lemmas key_eval = showInt_def zeroPad_def padStart_def showNat.simps digitChar_def

lemma percentage_15_of_30: "fmul (fdiv 15 30) 100 = 50"
  by code_simp

lemma toFixed0_example: "toFixed0 (fmul (fdiv 15 30) 100) = ''50''"
  by (simp add: percentage_15_of_30 toFixed0_def key_eval)

text \<open>Double precision shows where the exact quotient is on a rounding boundary: 23 of
  40 is 57.5 exactly and 57.49999999999999 as a double, which \<^verbatim>\<open>toFixed(0)\<close> gives as
  \<^verbatim>\<open>"57"\<close>.\<close>

lemma percentage_23_of_40:
  "round (fmul (fdiv 23 40) 100) = 57 \<and> round (23 / 40 * 100 :: rat) = 58"
  by code_simp

lemma toFixed0_23_of_40: "toFixed0 (fmul (fdiv 23 40) 100) = ''57''"
proof -
  have "0 \<le> fmul (fdiv 23 40) 100"
    using percentage_double_range [of 23 40] by simp
  then show ?thesis using percentage_23_of_40 by (simp add: toFixed0_def key_eval)
qed

lemma january_2024_total:
  "length (filter isCurrentMonth (generateCalendarDays (LocalDate 2024 0 10 0))) = 31"
  by (simp add: generateCalendarDays_total fullYear_def monthLength_def monthStart_def)

lemma april_2024_current:
  "filter isCurrentMonth (generateCalendarDays (LocalDate 2024 3 20 0)) =
     map (\<lambda>i. mkCell (LocalDate 2024 3 i 0) True) [1..30]"
  by (simp add: generateCalendarDays_current fullYear_def monthLength_def monthStart_def)

lemma april_2024_completed:
  "length (completedCells aprilHalf (generateCalendarDays (LocalDate 2024 3 20 0))) = 15"
  unfolding completedCells_def april_2024_current
  by (simp add: aprilHalf_def upto_rec1 key_eval mkCell_def getProp_def)

lemma aprilHalf_sorted_nonempty: "sortedDates aprilHalf \<noteq> []"
proof -
  have "truthy (getProp (JObj aprilHalf) ''2024-04-01'')"
    by (simp add: aprilHalf_def upto_rec1 key_eval getProp_def)
  then show ?thesis using completed_sortedDates by fastforce
qed

lemmas iso_eval = utcDay_def isDigit_def digitVal_def monthLength_def monthStart_def isLeap_def
  dayNumber_def dayFromYear_def diffDays_def

lemma januaryDays_sorted:
  "sortedDates januaryDays = [''2024-01-01'', ''2024-01-02'', ''2024-01-03'', ''2024-01-05'']"
  by (simp add: sortedDates_def januaryDays_def getProp_def)

lemma januaryDays_gaps:
  "gaps legacy (sortedDates januaryDays) = [Some 1, Some 1, Some 2]"
  by (simp add: januaryDays_sorted iso_eval)

lemma januaryDays_running:
  "runningStreaks 1 (gaps legacy (sortedDates januaryDays)) = [1, 2, 3, 1]"
  by (simp add: januaryDays_gaps)

lemma januaryDays_longest:
  "longestStreak (stats legacy now januaryDays calendarDays) = 3"
proof -
  have ne: "sortedDates januaryDays \<noteq> []" by (simp add: januaryDays_sorted)
  have "longestStreak (stats legacy now januaryDays calendarDays) = Max (set [1, 2, 3, 1])"
    unfolding stats_longest [OF ne] januaryDays_running ..
  then show ?thesis by simp
qed

lemma key_jan10: "getDateKey (LocalDate 2024 0 10 ms) = ''2024-01-10''"
  by (simp add: key_eval)

lemma key_jan9: "getDateKey (LocalDate 2024 0 9 ms) = ''2024-01-09''"
  by (simp add: key_eval)

lemma key_jan5: "getDateKey (LocalDate 2024 0 5 ms) = ''2024-01-05''"
  by (simp add: key_eval)

lemma key_jan4: "getDateKey (LocalDate 2024 0 4 ms) = ''2024-01-04''"
  by (simp add: key_eval)

text \<open>The four January days seen from 10 January 2024 (the streak has lapsed) and from
  5 January 2024 (a streak of one day).\<close>

lemma januaryDays_lapsed:
  "currentStreak (stats legacy (LocalDate 2024 0 10 0) januaryDays calendarDays) = 0
   \<and> longestStreak (stats legacy (LocalDate 2024 0 10 0) januaryDays calendarDays) = 3"
proof -
  have ne: "sortedDates januaryDays \<noteq> []" by (simp add: januaryDays_sorted)
  have v: "validDate (LocalDate 2024 0 10 0)" by (simp add: trueDayCount_def)
  have l: "last (sortedDates januaryDays) = ''2024-01-05''" by (simp add: januaryDays_sorted)
  show ?thesis
    using stats_currentStreak_last_key [OF ne refl v, of legacy calendarDays]
      januaryDays_longest [of legacy "LocalDate 2024 0 10 0" calendarDays]
    by (simp add: l key_eval)
qed

lemma januaryDays_current:
  "currentStreak (stats legacy (LocalDate 2024 0 5 0) januaryDays calendarDays) = 1"
proof -
  have ne: "sortedDates januaryDays \<noteq> []" by (simp add: januaryDays_sorted)
  have v: "validDate (LocalDate 2024 0 5 0)" by (simp add: trueDayCount_def)
  have l: "last (sortedDates januaryDays) = ''2024-01-05''" by (simp add: januaryDays_sorted)
  have f: "last (runningStreaks (Suc 0) (gaps legacy (sortedDates januaryDays))) = Suc 0"
    using januaryDays_running [of legacy] by simp
  show ?thesis
    using stats_currentStreak_last_key [OF ne refl v, of legacy calendarDays]
    by (simp add: l f key_eval)
qed

section \<open>Facts about the date key\<close>

lemma digits_distinct: "distinct ''0123456789''"
  by simp

lemma digits_increasing: "sorted_wrt (<) ''0123456789''"
  by simp

lemma digitChar_inj:
  assumes "a < 10" "b < 10" "digitChar a = digitChar b"
  shows "a = b"
  using assms nth_eq_iff_index_eq [OF digits_distinct, of a b] by (simp add: digitChar_def)

lemma digitChar_mono:
  assumes "a < b" "b < 10"
  shows "digitChar a < digitChar b"
  using sorted_wrt_nth_less [OF digits_increasing, of a b] assms by (simp add: digitChar_def)

lemma digitChar_less:
  assumes "a < 10" "b < 10"
  shows "digitChar a < digitChar b \<longleftrightarrow> a < b"
proof
  assume l: "digitChar a < digitChar b"
  show "a < b"
  proof (rule ccontr)
    assume "\<not> a < b"
    then consider "a = b" | "b < a" by linarith
    then show False
    proof cases
      case 1
      then show ?thesis using l by simp
    next
      case 2
      then have "digitChar b < digitChar a" using assms by (simp add: digitChar_mono)
      then show ?thesis using l by simp
    qed
  qed
next
  assume "a < b"
  then show "digitChar a < digitChar b" using assms by (simp add: digitChar_mono)
qed

lemma digitChar_not_minus:
  assumes "n < 10"
  shows "digitChar n \<noteq> CHR ''-''"
proof -
  have "digitChar n \<in> set ''0123456789''"
    unfolding digitChar_def using assms by (intro nth_mem) simp
  then show ?thesis by auto
qed

lemma showNat_small: "n < 10 \<Longrightarrow> showNat n = [digitChar n]"
  by (subst showNat.simps) simp

lemma showNat_large: "10 \<le> n \<Longrightarrow> showNat n = showNat (n div 10) @ [digitChar (n mod 10)]"
  by (subst showNat.simps) simp

lemma showNat_nonempty: "showNat n \<noteq> []"
  by (subst showNat.simps) simp

lemma length_showNat_one: "length (showNat n) = Suc 0 \<longleftrightarrow> n < 10"
proof (cases "n < 10")
  case True
  then show ?thesis by (simp add: showNat_small)
next
  case False
  then have "length (showNat n) = length (showNat (n div 10)) + 1" by (simp add: showNat_large)
  moreover have "0 < length (showNat (n div 10))" using showNat_nonempty by simp
  ultimately show ?thesis using False by simp
qed

lemma showNat_no_minus: "CHR ''-'' \<notin> set (showNat n)"
proof (induction n rule: showNat.induct)
  case (1 n)
  show ?case
  proof (cases "n < 10")
    case True
    then show ?thesis using digitChar_not_minus [of n] by (auto simp add: showNat_small)
  next
    case False
    then show ?thesis
      using 1 digitChar_not_minus [of "n mod 10"] by (auto simp add: showNat_large)
  qed
qed

lemma div_mod_10:
  fixes a b :: nat
  assumes "a div 10 = b div 10" "a mod 10 = b mod 10"
  shows "a = b"
proof -
  have "a = 10 * (a div 10) + a mod 10" by simp
  also have "\<dots> = 10 * (b div 10) + b mod 10" by (simp only: assms)
  also have "\<dots> = b" by simp
  finally show ?thesis .
qed

lemma showNat_inj: "showNat a = showNat b \<Longrightarrow> a = b"
proof (induction a arbitrary: b rule: showNat.induct)
  case (1 a)
  show ?case
  proof (cases "a < 10")
    case True
    then have "length (showNat b) = Suc 0" using "1.prems" [symmetric] by (simp add: showNat_small)
    then have b: "b < 10" by (simp add: length_showNat_one)
    then show ?thesis using "1.prems" True digitChar_inj by (simp add: showNat_small)
  next
    case False
    then have "length (showNat b) \<noteq> Suc 0" using "1.prems" [symmetric] by (simp add: length_showNat_one)
    then have b: "\<not> b < 10" by (simp add: length_showNat_one)
    have "showNat (a div 10) @ [digitChar (a mod 10)] = showNat (b div 10) @ [digitChar (b mod 10)]"
      using "1.prems" False b by (simp add: showNat_large)
    then have "showNat (a div 10) = showNat (b div 10)" and "digitChar (a mod 10) = digitChar (b mod 10)"
      by simp_all
    then have "a div 10 = b div 10" and "a mod 10 = b mod 10"
      using "1.IH" [OF False] digitChar_inj [of "a mod 10" "b mod 10"] by simp_all
    then show ?thesis by (rule div_mod_10)
  qed
qed

lemma showNat_not_minus_Cons: "CHR ''-'' # xs \<noteq> showNat n"
proof
  assume "CHR ''-'' # xs = showNat n"
  then have "CHR ''-'' \<in> set (showNat n)" by (metis list.set_intros(1))
  then show False by (simp add: showNat_no_minus)
qed

lemma showInt_inj: "showInt a = showInt b \<Longrightarrow> a = b"
proof -
  assume e: "showInt a = showInt b"
  show ?thesis
  proof (cases "a < 0")
    case True
    have "b < 0"
    proof (rule ccontr)
      assume "\<not> b < 0"
      then have "CHR ''-'' # showNat (nat (- a)) = showNat (nat b)"
        using e True by (simp add: showInt_def)
      then show False by (simp add: showNat_not_minus_Cons)
    qed
    then show ?thesis using e True showNat_inj [of "nat (- a)" "nat (- b)"] by (simp add: showInt_def)
  next
    case False
    have "\<not> b < 0"
    proof
      assume "b < 0"
      then have "CHR ''-'' # showNat (nat (- b)) = showNat (nat a)"
        using e False by (simp add: showInt_def)
      then show False by (simp add: showNat_not_minus_Cons)
    qed
    then show ?thesis using e False showNat_inj [of "nat a" "nat b"] by (simp add: showInt_def)
  qed
qed

lemma length_showNat_two: "10 \<le> n \<Longrightarrow> n < 100 \<Longrightarrow> length (showNat n) = 2"
  by (simp add: showNat_large showNat_small)

lemma zeroPad_digits:
  assumes "0 \<le> n" "n < 100"
  shows "zeroPad n = [digitChar (nat n div 10), digitChar (nat n mod 10)]"
proof (cases "n < 10")
  case True
  have "digitChar 0 = CHR ''0''" by (simp add: digitChar_def)
  then show ?thesis
    using True assms by (simp add: zeroPad_def padStart_def showInt_def showNat_small)
next
  case False
  then show ?thesis
    using assms by (simp add: zeroPad_def padStart_def showInt_def showNat_small showNat_large)
qed

lemma length_zeroPad:
  assumes "0 \<le> n" "n < 100"
  shows "length (zeroPad n) = 2"
  by (simp add: zeroPad_digits [OF assms])

lemma zeroPad_inj:
  assumes "0 \<le> a" "a < 100" "0 \<le> b" "b < 100" "zeroPad a = zeroPad b"
  shows "a = b"
proof -
  have "digitChar (nat a div 10) = digitChar (nat b div 10)"
    and "digitChar (nat a mod 10) = digitChar (nat b mod 10)"
    using assms(5) by (simp_all add: zeroPad_digits [OF assms(1,2)] zeroPad_digits [OF assms(3,4)])
  moreover have "nat a div 10 < 10" "nat b div 10 < 10" using assms by simp_all
  ultimately have "nat a div 10 = nat b div 10" and "nat a mod 10 = nat b mod 10"
    by (auto intro: digitChar_inj)
  then have "nat a = nat b" by (rule div_mod_10)
  then show ?thesis using assms by simp
qed

lemma getDateKey_time_of_day:
  "getDateKey (LocalDate y m d ms) = getDateKey (LocalDate y m d ms')"
  by simp

lemma getDateKey_inj:
  assumes "validDate (LocalDate y m d ms)" "validDate (LocalDate y' m' d' ms')"
    and "getDateKey (LocalDate y m d ms) = getDateKey (LocalDate y' m' d' ms')"
  shows "y = y' \<and> m = m' \<and> d = d'"
proof -
  note v = validDate_month [OF assms(1)] and v' = validDate_month [OF assms(2)]
  have r: "0 \<le> m + 1" "m + 1 < 100" "0 \<le> d" "d < 100" "0 \<le> m' + 1" "m' + 1 < 100" "0 \<le> d'" "d' < 100"
    using v v' monthLength_bounds [OF v(1,2), of y] monthLength_bounds [OF v'(1,2), of y']
    by simp_all
  define t where "t = ''-'' @ zeroPad (m + 1) @ ''-'' @ zeroPad d"
  define t' where "t' = ''-'' @ zeroPad (m' + 1) @ ''-'' @ zeroPad d'"
  have len: "length t = length t'"
    using r by (simp add: t_def t'_def length_zeroPad)
  have "showInt y @ t = showInt y' @ t'" using assms(3) by (simp add: t_def t'_def)
  then have "showInt y = showInt y'" and tt: "t = t'" using len by simp_all
  then have y: "y = y'" by (simp add: showInt_inj)
  have "length (zeroPad (m + 1)) = length (zeroPad (m' + 1))" using r by (simp add: length_zeroPad)
  then have zm: "zeroPad (m + 1) = zeroPad (m' + 1)" and zd: "zeroPad d = zeroPad d'"
    using tt by (simp_all add: t_def t'_def)
  have "m + 1 = m' + 1" by (rule zeroPad_inj [OF r(1,2,5,6) zm])
  moreover have "d = d'" by (rule zeroPad_inj [OF r(3,4,7,8) zd])
  ultimately show ?thesis using y by simp
qed

section \<open>The order of the keys\<close>

lemma append_less_same_length:
  fixes A B R S :: "'a::linorder list"
  assumes "length A = length B"
  shows "(A @ R < B @ S) \<longleftrightarrow> (A < B \<or> A = B \<and> R < S)"
  using assms by (induction A B rule: list_induct2) auto

lemma div_mod_10_less:
  fixes a b :: nat
  shows "a < b \<longleftrightarrow> a div 10 < b div 10 \<or> a div 10 = b div 10 \<and> a mod 10 < b mod 10"
proof -
  have a: "a = 10 * (a div 10) + a mod 10" and b: "b = 10 * (b div 10) + b mod 10" by simp_all
  have ra: "a mod 10 < 10" and rb: "b mod 10 < 10" by simp_all
  show ?thesis
  proof (cases "a div 10 < b div 10")
    case True
    then have "10 * (a div 10) + 10 \<le> 10 * (b div 10)" by simp
    then have "a < b" using a b ra by linarith
    then show ?thesis using True by simp
  next
    case False
    show ?thesis
    proof (cases "a div 10 = b div 10")
      case True
      then show ?thesis using a b by (metis nat_add_left_cancel_less nat_neq_iff)
    next
      case neq: False
      then have "b div 10 < a div 10" using False by simp
      then have "10 * (b div 10) + 10 \<le> 10 * (a div 10)" by simp
      then have "b < a" using a b rb by linarith
      then show ?thesis using False neq by simp
    qed
  qed
qed

lemma length_showNat_large: "10 \<le> n \<Longrightarrow> length (showNat n) = Suc (length (showNat (n div 10)))"
  by (simp add: showNat_large)

lemma showNat_less:
  assumes "length (showNat a) = length (showNat b)"
  shows "showNat a < showNat b \<longleftrightarrow> a < b"
  using assms
proof (induction a arbitrary: b rule: showNat.induct)
  case (1 a)
  show ?case
  proof (cases "a < 10")
    case True
    then have "length (showNat b) = Suc 0" using "1.prems" [symmetric] by (simp add: showNat_small)
    then have b: "b < 10" by (simp add: length_showNat_one)
    then show ?thesis using True by (simp add: showNat_small digitChar_less)
  next
    case False
    then have "length (showNat b) \<noteq> Suc 0" using "1.prems" [symmetric] by (simp add: length_showNat_one)
    then have b: "\<not> b < 10" by (simp add: length_showNat_one)
    have len: "length (showNat (a div 10)) = length (showNat (b div 10))"
      using "1.prems" False b by (simp add: length_showNat_large)
    have ih: "showNat (a div 10) < showNat (b div 10) \<longleftrightarrow> a div 10 < b div 10"
      using "1.IH" [OF False len] .
    have eq: "showNat (a div 10) = showNat (b div 10) \<longleftrightarrow> a div 10 = b div 10"
      using showNat_inj by auto
    have "showNat a < showNat b \<longleftrightarrow>
        showNat (a div 10) @ [digitChar (a mod 10)] < showNat (b div 10) @ [digitChar (b mod 10)]"
      using False b by (simp add: showNat_large)
    also have "\<dots> \<longleftrightarrow> showNat (a div 10) < showNat (b div 10)
        \<or> showNat (a div 10) = showNat (b div 10) \<and> [digitChar (a mod 10)] < [digitChar (b mod 10)]"
      by (rule append_less_same_length [OF len])
    also have "\<dots> \<longleftrightarrow> a div 10 < b div 10 \<or> a div 10 = b div 10 \<and> a mod 10 < b mod 10"
      by (simp add: ih eq digitChar_less)
    also have "\<dots> \<longleftrightarrow> a < b" by (rule div_mod_10_less [symmetric])
    finally show ?thesis .
  qed
qed

lemma zeroPad_less:
  assumes "0 \<le> a" "a < 100" "0 \<le> b" "b < 100"
  shows "zeroPad a < zeroPad b \<longleftrightarrow> a < b"
proof -
  have "zeroPad a < zeroPad b \<longleftrightarrow>
      nat a div 10 < nat b div 10 \<or> nat a div 10 = nat b div 10 \<and> nat a mod 10 < nat b mod 10"
    using assms digitChar_inj [of "nat a div 10" "nat b div 10"]
    by (auto simp add: zeroPad_digits digitChar_less)
  also have "\<dots> \<longleftrightarrow> nat a < nat b" by (rule div_mod_10_less [symmetric])
  finally show ?thesis using assms by auto
qed

text \<open>Between days whose years are not negative and have the same number of digits, the
  order of the keys as strings is the order of the days.\<close>

lemma getDateKey_less_iff:
  assumes "validDate (LocalDate y1 m1 d1 ms1)" "validDate (LocalDate y2 m2 d2 ms2)"
    and "0 \<le> y1" "0 \<le> y2" "length (showInt y1) = length (showInt y2)"
  shows "getDateKey (LocalDate y1 m1 d1 ms1) < getDateKey (LocalDate y2 m2 d2 ms2)
    \<longleftrightarrow> dayNumber y1 m1 d1 < dayNumber y2 m2 d2"
proof -
  note v1 = validDate_month [OF assms(1)] and v2 = validDate_month [OF assms(2)]
  have r1: "0 \<le> m1 + 1" "m1 + 1 < 100" "0 \<le> d1" "d1 < 100"
    using v1 monthLength_bounds [OF v1(1,2), of y1] by simp_all
  have r2: "0 \<le> m2 + 1" "m2 + 1 < 100" "0 \<le> d2" "d2 < 100"
    using v2 monthLength_bounds [OF v2(1,2), of y2] by simp_all
  have ly: "showInt y1 < showInt y2 \<longleftrightarrow> y1 < y2"
    using assms(3-5) showNat_less [of "nat y1" "nat y2"] by (auto simp add: showInt_def)
  have ey: "showInt y1 = showInt y2 \<longleftrightarrow> y1 = y2" using showInt_inj by auto
  have lm: "zeroPad (m1 + 1) < zeroPad (m2 + 1) \<longleftrightarrow> m1 < m2"
    using zeroPad_less [OF r1(1,2) r2(1,2)] by auto
  have em: "zeroPad (m1 + 1) = zeroPad (m2 + 1) \<longleftrightarrow> m1 = m2"
    using zeroPad_inj [OF r1(1,2) r2(1,2)] by auto
  have ld: "zeroPad d1 < zeroPad d2 \<longleftrightarrow> d1 < d2"
    by (rule zeroPad_less [OF r1(3,4) r2(3,4)])
  have lenm: "length (zeroPad (m1 + 1)) = length (zeroPad (m2 + 1))"
    by (simp add: length_zeroPad [OF r1(1,2)] length_zeroPad [OF r2(1,2)])
  have "getDateKey (LocalDate y1 m1 d1 ms1) < getDateKey (LocalDate y2 m2 d2 ms2) \<longleftrightarrow>
      showInt y1 @ (CHR ''-'' # zeroPad (m1 + 1) @ (CHR ''-'' # zeroPad d1))
        < showInt y2 @ (CHR ''-'' # zeroPad (m2 + 1) @ (CHR ''-'' # zeroPad d2))"
    by simp
  also have "\<dots> \<longleftrightarrow> showInt y1 < showInt y2 \<or> showInt y1 = showInt y2
      \<and> zeroPad (m1 + 1) @ (CHR ''-'' # zeroPad d1) < zeroPad (m2 + 1) @ (CHR ''-'' # zeroPad d2)"
    by (simp add: append_less_same_length [OF assms(5)])
  also have "\<dots> \<longleftrightarrow> y1 < y2 \<or> y1 = y2 \<and> (m1 < m2 \<or> m1 = m2 \<and> d1 < d2)"
    by (simp add: append_less_same_length [OF lenm] ly ey lm em ld)
  also have "\<dots> \<longleftrightarrow> dayNumber y1 m1 d1 < dayNumber y2 m2 d2"
    by (rule dayNumber_less_iff [OF v1 v2, symmetric])
  finally show ?thesis .
qed

lemma length_showInt_four_digits:
  assumes "1000 \<le> y" "y \<le> 9999"
  shows "length (showInt y) = 4"
proof -
  define n where "n = nat y"
  have n: "1000 \<le> n" "n < 10000" using assms by (simp_all add: n_def)
  then have "10 \<le> n" "10 \<le> n div 10" "10 \<le> n div 10 div 10" "n div 10 div 10 div 10 < 10"
    by simp_all
  then have "length (showNat n) = 4"
    by (simp add: length_showNat_large showNat_small)
  then show ?thesis using assms by (simp add: showInt_def n_def)
qed

lemma getDateKey_order_four_digits:
  assumes "validDate (LocalDate y1 m1 d1 ms1)" "validDate (LocalDate y2 m2 d2 ms2)"
    and "1000 \<le> y1" "y1 \<le> 9999" "1000 \<le> y2" "y2 \<le> 9999"
  shows "getDateKey (LocalDate y1 m1 d1 ms1) < getDateKey (LocalDate y2 m2 d2 ms2)
    \<longleftrightarrow> dayNumber y1 m1 d1 < dayNumber y2 m2 d2"
  using assms(3-6)
  by (intro getDateKey_less_iff [OF assms(1,2)])
     (simp_all add: length_showInt_four_digits)

lemma getDateKey_year_boundary:
  "getDateKey (LocalDate 2023 11 31 0) < getDateKey (LocalDate 2024 0 1 0)"
  by (simp add: key_eval)

lemma sorted_le_last:
  fixes xs :: "'a::linorder list"
  assumes "sorted xs" "x \<in> set xs"
  shows "x \<le> last xs"
  using assms
proof (induction xs)
  case Nil
  then show ?case by simp
next
  case (Cons a xs)
  show ?case
  proof (cases "xs = []")
    case True
    then show ?thesis using Cons.prems by simp
  next
    case False
    then have l: "last (a # xs) = last xs" by simp
    have "last xs \<in> set xs" using False by simp
    then have "a \<le> last xs" using Cons.prems(1) by simp
    moreover have "x \<in> set xs \<Longrightarrow> x \<le> last xs" using Cons.IH Cons.prems(1) by simp
    ultimately show ?thesis using Cons.prems(2) l by auto
  qed
qed

text \<open>Where the completed keys are keys of days with four-digit years, the last of the
  sorted keys is the key of the latest completed day.\<close>

lemma last_sortedDates_latest:
  assumes "last (sortedDates cd) = getDateKey (LocalDate y m d ms)"
    and "validDate (LocalDate y m d ms)" "1000 \<le> y" "y \<le> 9999"
    and "getDateKey (LocalDate y' m' d' ms') \<in> set (sortedDates cd)"
    and "validDate (LocalDate y' m' d' ms')" "1000 \<le> y'" "y' \<le> 9999"
  shows "dayNumber y' m' d' \<le> dayNumber y m d"
proof -
  have "getDateKey (LocalDate y' m' d' ms') \<le> last (sortedDates cd)"
    by (rule sorted_le_last [OF sorted_sortedDates assms(5)])
  then have "\<not> getDateKey (LocalDate y m d ms) < getDateKey (LocalDate y' m' d' ms')"
    by (simp only: assms(1) not_less)
  then have "\<not> dayNumber y m d < dayNumber y' m' d'"
    using getDateKey_order_four_digits [OF assms(2) assms(6) assms(3,4) assms(7,8)] by simp
  then show ?thesis by simp
qed

section \<open>Facts about the handlers\<close>

lemma falsy_getProp: "\<not> truthy data \<Longrightarrow> getProp data k = JUndefined"
  by (cases data) (simp_all add: getProp_def)

lemma handleImport_unparseable:
  assumes "parse jsonData = None"
  shows "handleImport parse confirmed jsonData st = (st, ImportFailed SyntaxError)"
  using assms by (simp add: handleImport_def)

lemma handleImport_mismatch:
  assumes "parse jsonData = Some data"
    and "\<not> (typeof (getProp data ''completedDays'') = ''object''
            \<and> typeof (getProp data ''monthlyNotes'') = ''object'')"
  shows "handleImport parse confirmed jsonData st = (st, ImportFailed (Error ''Invalid data format.''))"
  using assms by (auto simp add: handleImport_def)

lemma handleImport_failed_unchanged:
  assumes "snd (handleImport parse confirmed jsonData st) = ImportFailed e"
  shows "fst (handleImport parse confirmed jsonData st) = st"
  using assms by (auto simp add: handleImport_def split: option.splits if_splits)

lemma handleImport_failed_iff:
  "(\<exists>e. snd (handleImport parse confirmed jsonData st) = ImportFailed e)
   \<longleftrightarrow> (case parse jsonData of None \<Rightarrow> True
        | Some data \<Rightarrow> \<not> (typeof (getProp data ''completedDays'') = ''object''
                          \<and> typeof (getProp data ''monthlyNotes'') = ''object''))"
  using falsy_getProp [of "the (parse jsonData)" "''completedDays''"]
  by (auto simp add: handleImport_def split: option.splits if_splits)

lemma handleImport_done:
  assumes "parse jsonData = Some data" "typeof (getProp data ''completedDays'') = ''object''"
    "typeof (getProp data ''monthlyNotes'') = ''object''"
  shows "handleImport parse True jsonData st =
    (\<lparr>completedDays = getProp data ''completedDays'', monthlyNotes = getProp data ''monthlyNotes'',
      writes = writes st @ [(''completedDays'', getProp data ''completedDays''),
                            (''monthlyNotes'', getProp data ''monthlyNotes'')]\<rparr>, ImportDone)"
proof -
  have "truthy data"
  proof (rule ccontr)
    assume "\<not> truthy data"
    then have "getProp data ''completedDays'' = JUndefined" by (rule falsy_getProp)
    with assms(2) show False by simp
  qed
  then show ?thesis
    using assms
    by (cases st) (simp add: handleImport_def setCompletedDays_def setMonthlyNotes_def Let_def)
qed

lemma completedDays_set: "completedDays (setCompletedDays f st) = f (completedDays st)"
  by (simp add: setCompletedDays_def Let_def)

lemma writes_set:
  "writes (setCompletedDays f st) = writes st @ [(''completedDays'', f (completedDays st))]"
  by (simp add: setCompletedDays_def Let_def)

lemma spread_toggleUpdater:
  "map_of (spread (toggleUpdater k prev)) =
     (if truthy (getProp prev k) then (map_of (spread prev))(k := None)
      else (map_of (spread prev))(k \<mapsto> JBool True))"
  by (simp add: toggleUpdater_def Let_def getProp_def update_conv' delete_conv')

lemma toggleUpdater_twice:
  assumes "map_of (spread prev) k = None \<or> map_of (spread prev) k = Some (JBool True)"
  shows "map_of (spread (toggleUpdater k (toggleUpdater k prev))) = map_of (spread prev)"
  using assms by (auto simp add: spread_toggleUpdater getProp_def fun_eq_iff)

lemma toggleUpdater_flips:
  "truthy (getProp (toggleUpdater k prev) k) = (\<not> truthy (getProp prev k))"
  by (simp add: getProp_def spread_toggleUpdater)

lemma handleDayClick_map:
  "map_of (spread (completedDays (handleDayClick dt st))) =
     (if getDateKey dt = [] then map_of (spread (completedDays st))
      else if truthy (getProp (completedDays st) (getDateKey dt))
      then (map_of (spread (completedDays st)))(getDateKey dt := None)
      else (map_of (spread (completedDays st)))(getDateKey dt \<mapsto> JBool True))"
  by (simp add: handleDayClick_def Let_def completedDays_set spread_toggleUpdater)

lemma handleDayClick_two_clicks:
  assumes "map_of (spread (completedDays st)) (getDateKey dt) = None
         \<or> map_of (spread (completedDays st)) (getDateKey dt) = Some (JBool True)"
  shows "map_of (spread (completedDays (handleDayClick dt (handleDayClick dt st))))
       = map_of (spread (completedDays st))"
  using assms toggleUpdater_twice [of "completedDays st" "getDateKey dt"]
  by (simp add: handleDayClick_def Let_def completedDays_set)

lemma truthy_update_other:
  "truthy (getProp (JObj m) k) \<Longrightarrow> truthy (getProp (JObj (AList.update k' (JBool True) m)) k)"
  by (simp add: getProp_def update_conv' split: option.splits)

lemma truthy_update_same: "truthy (getProp (JObj (AList.update k (JBool True) m)) k)"
  by (simp add: getProp_def update_conv')

text \<open>The loop only ever adds completions.\<close>

lemma markAllLoop_keeps:
  "truthy (getProp (JObj m) k) \<Longrightarrow> truthy (getProp (JObj (fst (markAllLoop cs (m, ch)))) k)"
proof (induction cs arbitrary: m ch)
  case Nil
  then show ?case by simp
next
  case (Cons c cs)
  then show ?case by (simp add: Let_def truthy_update_other)
qed

text \<open>After the loop every current-month cell with a key is completed.\<close>

lemma markAllLoop_completes:
  "c \<in> set cs \<Longrightarrow> isCurrentMonth c \<Longrightarrow> getDateKey (date c) \<noteq> [] \<Longrightarrow>
     truthy (getProp (JObj (fst (markAllLoop cs (m, ch)))) (getDateKey (date c)))"
proof (induction cs arbitrary: m ch)
  case Nil
  then show ?case by simp
next
  case (Cons a cs)
  show ?case
  proof (cases "c = a")
    case True
    then show ?thesis
      using Cons.prems by (auto simp add: Let_def intro: markAllLoop_keeps truthy_update_same)
  next
    case False
    then have "c \<in> set cs" using Cons.prems by simp
    then show ?thesis using Cons.IH Cons.prems by (simp add: Let_def)
  qed
qed

text \<open>Where every such cell is completed already, the loop changes nothing.\<close>

lemma markAllLoop_noop:
  assumes "\<And>c. c \<in> set cs \<Longrightarrow> isCurrentMonth c \<Longrightarrow> getDateKey (date c) \<noteq> [] \<Longrightarrow>
     truthy (getProp (JObj m) (getDateKey (date c)))"
  shows "markAllLoop cs (m, ch) = (m, ch)"
  using assms
proof (induction cs)
  case Nil
  then show ?case by simp
next
  case (Cons a cs)
  have here: "isCurrentMonth a \<Longrightarrow> getDateKey (date a) \<noteq> [] \<Longrightarrow>
     truthy (getProp (JObj m) (getDateKey (date a)))"
    using Cons.prems [of a] by simp
  have rest: "markAllLoop cs (m, ch) = (m, ch)"
    using Cons.IH Cons.prems by simp
  show ?case using here rest by (auto simp add: Let_def)
qed

text \<open>Once the flag is set it stays set, and the map changes only with the flag set.\<close>

lemma markAllLoop_changed: "snd (markAllLoop cs (m, True))"
  by (induction cs arbitrary: m) (simp_all add: Let_def)

lemma markAllLoop_unchanged:
  "\<not> snd (markAllLoop cs (m, ch)) \<Longrightarrow> fst (markAllLoop cs (m, ch)) = m"
proof (induction cs arbitrary: m ch)
  case Nil
  then show ?case by simp
next
  case (Cons a cs)
  then show ?case
    using markAllLoop_changed [of cs "AList.update (getDateKey (date a)) (JBool True) m"]
    by (auto simp add: Let_def split: if_splits)
qed

lemma spread_markAllUpdater:
  "spread (markAllUpdater cs prev) = fst (markAllLoop cs (spread prev, False))"
  using markAllLoop_unchanged [of cs "spread prev" False]
  by (simp add: markAllUpdater_def case_prod_beta)

lemma markAllUpdater_cases:
  "markAllUpdater cs prev = prev
   \<or> markAllUpdater cs prev = JObj (fst (markAllLoop cs (spread prev, False)))"
  by (simp add: markAllUpdater_def split: prod.splits)

lemma markAllUpdater_idem:
  "markAllUpdater cs (markAllUpdater cs prev) = markAllUpdater cs prev"
proof (cases "markAllUpdater cs prev = prev")
  case True
  then show ?thesis by simp
next
  case False
  define m where "m = fst (markAllLoop cs (spread prev, False))"
  have r: "markAllUpdater cs prev = JObj m"
    using markAllUpdater_cases [of cs prev] False by (simp add: m_def)
  have "markAllLoop cs (m, False) = (m, False)"
    by (rule markAllLoop_noop) (simp add: m_def markAllLoop_completes)
  then have "markAllUpdater cs (JObj m) = JObj m" by (simp add: markAllUpdater_def)
  then show ?thesis by (simp only: r)
qed

lemma allCompleted_iff:
  "allCompleted cs v \<longleftrightarrow>
     (\<forall>c \<in> set cs. isCurrentMonth c \<longrightarrow> truthy (getProp v (getDateKey (date c))))"
  by (auto simp add: allCompleted_def list_all_iff)

lemma getProp_spread: "getProp (JObj (spread v)) k = getProp v k"
  by (simp add: getProp_def)

lemma markAllUpdater_noop:
  assumes "allCompleted cs prev"
  shows "markAllUpdater cs prev = prev"
proof -
  have "markAllLoop cs (spread prev, False) = (spread prev, False)"
    by (rule markAllLoop_noop) (use assms in \<open>simp add: allCompleted_iff getProp_spread\<close>)
  then show ?thesis by (simp add: markAllUpdater_def)
qed

lemma allCompleted_markAllUpdater:
  assumes "\<And>c. c \<in> set cs \<Longrightarrow> isCurrentMonth c \<Longrightarrow> getDateKey (date c) \<noteq> []"
  shows "allCompleted cs (markAllUpdater cs prev)"
proof -
  have "truthy (getProp (markAllUpdater cs prev) (getDateKey (date c)))"
    if "c \<in> set cs" "isCurrentMonth c" for c
    using markAllLoop_completes [OF that assms [OF that], of "spread prev" False]
    by (simp add: getProp_spread [of "markAllUpdater cs prev", symmetric] spread_markAllUpdater)
  then show ?thesis by (simp add: allCompleted_iff)
qed

lemma handleMarkAll_writes:
  "writes (handleMarkAll cs st) = writes st @ [(''completedDays'', completedDays (handleMarkAll cs st))]"
  by (simp add: handleMarkAll_def setCompletedDays_def Let_def)

lemma handleMarkAll_completedDays:
  "completedDays (handleMarkAll cs st) = markAllUpdater cs (completedDays st)"
  by (simp add: handleMarkAll_def completedDays_set)

lemma getDateKey_nonempty: "getDateKey (LocalDate y m d ms) \<noteq> []"
  by simp

lemma grid_cell_date:
  assumes "0 \<le> m" "m \<le> 11" "- 271820 \<le> fullYear y" "fullYear y \<le> 275759"
    and "c \<in> set (generateCalendarDays (LocalDate y m d ms))"
  shows "\<exists>y' m' d'. date c = LocalDate y' m' d' 0"
  using assms(5) unfolding generateCalendarDays_grid [OF assms(1-4)]
  by (auto simp add: date_mkCell)

lemma grid_cell_key:
  assumes "0 \<le> m" "m \<le> 11" "- 271820 \<le> fullYear y" "fullYear y \<le> 275759"
    and "c \<in> set (generateCalendarDays (LocalDate y m d ms))"
  shows "getDateKey (date c) \<noteq> []"
  using grid_cell_date [OF assms] by auto

lemma set_update_subset: "set (AList.update k v al) \<subseteq> insert (k, v) (set al)"
  by (induction al) auto

lemma set_delete_subset: "set (AList.delete k al) \<subseteq> set al"
  by (auto simp add: AList.delete_eq)

lemma onlyTrue_iff: "onlyTrue v \<longleftrightarrow> (\<forall>kv \<in> set (spread v). snd kv = JBool True)"
  by (simp add: onlyTrue_def list_all_iff)

lemma onlyTrue_toggleUpdater:
  assumes "onlyTrue prev"
  shows "onlyTrue (toggleUpdater k prev)"
  using assms set_update_subset [of k "JBool True" "spread prev"] set_delete_subset [of k "spread prev"]
  by (auto simp add: onlyTrue_iff toggleUpdater_def Let_def)

lemma markAllLoop_onlyTrue:
  assumes "\<forall>kv \<in> set m. snd kv = JBool True"
  shows "\<forall>kv \<in> set (fst (markAllLoop cs (m, ch))). snd kv = JBool True"
  using assms
proof (induction cs arbitrary: m ch)
  case Nil
  then show ?case by simp
next
  case (Cons a cs)
  have "\<forall>kv \<in> set (AList.update (getDateKey (date a)) (JBool True) m). snd kv = JBool True"
    using Cons.prems set_update_subset [of "getDateKey (date a)" "JBool True" m] by auto
  then show ?case using Cons by (simp add: Let_def)
qed

lemma onlyTrue_markAllUpdater:
  assumes "onlyTrue prev"
  shows "onlyTrue (markAllUpdater cs prev)"
  using assms markAllLoop_onlyTrue [of "spread prev" cs False]
  by (simp add: onlyTrue_iff spread_markAllUpdater)

lemma set_foldl_delete:
  "set (foldl (\<lambda>newCompleted k. AList.delete k newCompleted) m ks) \<subseteq> set m"
proof (induction ks arbitrary: m)
  case Nil
  then show ?case by simp
next
  case (Cons k ks)
  have "set (foldl (\<lambda>newCompleted k. AList.delete k newCompleted) (AList.delete k m) ks)
      \<subseteq> set (AList.delete k m)" by (rule Cons.IH)
  also have "\<dots> \<subseteq> set m" by (rule set_delete_subset)
  finally show ?case by simp
qed

lemma map_of_foldl_delete:
  "map_of (foldl (\<lambda>newCompleted k. AList.delete k newCompleted) m ks) k' =
     (if k' \<in> set ks then None else map_of m k')"
  by (induction ks arbitrary: m) (simp_all add: delete_conv')

lemma onlyTrue_resetUpdater:
  assumes "onlyTrue prev"
  shows "onlyTrue (resetUpdater ks prev)"
  using assms set_foldl_delete [of "spread prev" ks]
  by (auto simp add: onlyTrue_iff resetUpdater_def)

lemma handleResetMonth_completedDays:
  "completedDays (fst (handleResetMonth confirmed cs st)) = completedDays st
   \<or> completedDays (fst (handleResetMonth confirmed cs st))
       = resetUpdater (currentMonthKeys cs) (completedDays st)"
  by (simp add: handleResetMonth_def Let_def completedDays_set)

lemma handleImport_completedDays:
  "completedDays (fst (handleImport parse confirmed jsonData st)) =
     (if snd (handleImport parse confirmed jsonData st) = ImportDone
      then getProp (the (parse jsonData)) ''completedDays'' else completedDays st)"
  by (simp add: handleImport_def setMonthlyNotes_def setCompletedDays_def Let_def
      split: option.splits)

text \<open>
  \<open>handleImport\<close> fails with the \<^verbatim>\<open>SyntaxError\<close> of \<^verbatim>\<open>JSON.parse\<close> when the string is
  not JSON, fails with the error \<^verbatim>\<open>Invalid data format.\<close> when \<^verbatim>\<open>typeof\<close> of the
  \<^verbatim>\<open>completedDays\<close> or of the \<^verbatim>\<open>monthlyNotes\<close> property of the parsed value is not
  \<^verbatim>\<open>'object'\<close>, and on every failure leaves the state (both maps, and the storage) as
  it was.
\<close>

lemma handleImport_rejects:
  "(parse jsonData = None \<longrightarrow>
       handleImport parse confirmed jsonData st = (st, ImportFailed SyntaxError))
   \<and> (\<forall>data. parse jsonData = Some data
          \<and> \<not> (typeof (getProp data ''completedDays'') = ''object''
                \<and> typeof (getProp data ''monthlyNotes'') = ''object'')
        \<longrightarrow> handleImport parse confirmed jsonData st
              = (st, ImportFailed (Error ''Invalid data format.'')))
   \<and> (\<forall>e. snd (handleImport parse confirmed jsonData st) = ImportFailed e
        \<longrightarrow> fst (handleImport parse confirmed jsonData st) = st)"
  using handleImport_unparseable [of parse jsonData confirmed st]
    handleImport_mismatch [of parse jsonData _ confirmed st]
    handleImport_failed_unchanged [of parse confirmed jsonData st]
  by blast

section \<open>Evaluated examples of the handlers\<close>

lemma april_allCompleted:
  "allCompleted (generateCalendarDays (LocalDate 2024 3 20 0))
     (completedDays (handleMarkAll (generateCalendarDays (LocalDate 2024 3 20 0)) st))"
  unfolding handleMarkAll_completedDays
proof (rule allCompleted_markAllUpdater)
  fix c assume "c \<in> set (generateCalendarDays (LocalDate 2024 3 20 0))"
  then show "getDateKey (date c) \<noteq> []" by (rule grid_cell_key [rotated 4]) (simp_all add: fullYear_def)
qed

lemma january_2024_keys:
  "currentMonthKeys (generateCalendarDays (LocalDate 2024 0 10 0)) =
     map (\<lambda>i. getDateKey (LocalDate 2024 0 i 0)) [1..31]"
proof -
  have "filter isCurrentMonth (generateCalendarDays (LocalDate 2024 0 10 0)) =
     map (\<lambda>i. mkCell (LocalDate 2024 0 i 0) True) [1..31]"
    by (simp add: generateCalendarDays_current fullYear_def monthLength_def monthStart_def)
  then show ?thesis
    by (simp add: currentMonthKeys_def o_def key_mkCell filter_map)
qed

lemma oneDay_reset:
  "snd (handleResetMonth True (generateCalendarDays (LocalDate 2024 0 10 0)) oneDayApp) = ResetDone"
  unfolding handleResetMonth_def Let_def january_2024_keys
  by (simp add: oneDayApp_def nullish_def getProp_def upto_rec1 key_eval)

lemma import_false:
  "handleImport parseSample True importText freshApp =
     (\<lparr>completedDays = JObj [(''2024-01-01'', JBool False)], monthlyNotes = JObj [],
       writes = [(''completedDays'', JObj [(''2024-01-01'', JBool False)]),
                 (''monthlyNotes'', JObj [])]\<rparr>, ImportDone)"
proof -
  have p: "parseSample importText = Some importValue" by (simp add: parseSample_def)
  have a: "getProp importValue ''completedDays'' = JObj [(''2024-01-01'', JBool False)]"
    and b: "getProp importValue ''monthlyNotes'' = JObj []"
    by (simp_all add: importValue_def getProp_def)
  show ?thesis
    using handleImport_done [of parseSample importText importValue freshApp] p
    by (simp add: a b freshApp_def)
qed

text \<open>The import of a text that is not JSON, of an array and of \<^verbatim>\<open>null\<close>, with the
  user ready to confirm: each fails and leaves the state as it was.\<close>

lemma handleImport_rejects_examples:
  "handleImport parseSample True ''{oops'' oneDayApp = (oneDayApp, ImportFailed SyntaxError)
   \<and> handleImport parseSample True ''[1, 2]'' oneDayApp
        = (oneDayApp, ImportFailed (Error ''Invalid data format.''))
   \<and> handleImport parseSample True ''null'' oneDayApp
        = (oneDayApp, ImportFailed (Error ''Invalid data format.''))"
proof -
  have a: "parseSample ''{oops'' = None"
    and b: "parseSample ''[1, 2]'' = Some (JArr [JNum 1, JNum 2])"
    and c: "parseSample ''null'' = Some JNull"
    by (simp_all add: parseSample_def importText_def)
  have d: "typeof (getProp (JArr [JNum 1, JNum 2]) ''completedDays'') = ''undefined''"
    by (simp add: getProp_def showNat.simps digitChar_def)
  have e: "typeof (getProp JNull ''completedDays'') = ''undefined''"
    by (simp add: getProp_def)
  show ?thesis
    using handleImport_rejects [of parseSample "''{oops''" True oneDayApp]
      handleImport_rejects [of parseSample "''[1, 2]''" True oneDayApp]
      handleImport_rejects [of parseSample "''null''" True oneDayApp]
    by (simp add: a b c d e)
qed

section \<open>The properties of the specification\<close>

text \<open>
  C1. For every (year, month), \<open>generateCalendarDays\<close> returns 42 cells whose
  current-month cells form one run as long as the true day count of that month. The
  lemma \<open>generateCalendarDays_length\<close> gives the 42 cells for every date, the lemma
  \<open>generateCalendarDays_shape\<close> the run and its neighbours for every year from -271820
  to 275759 other than 0 to 99. For a date in February of year 0 it fails: the
  constructor \<^verbatim>\<open>new Date(0, 2, 0)\<close> reads the year 0 as 1900, so the grid is that of
  February 1900 with 28 current-month cells, while February of year 0, a leap year,
  has 29 days.
\<close>

theorem generateCalendarDays_february_year_0:
  "length (filter isCurrentMonth (generateCalendarDays (LocalDate 0 1 15 0))) = 28
   \<and> trueDayCount 0 1 = 29"
  by (simp add: generateCalendarDays_total fullYear_def monthLength_def monthStart_def isLeap_def
      trueDayCount_def)



text \<open>
  C3. \<open>currentStreak\<close> is the final running streak length when the last of the sorted
  keys is the key of today or of the day before, and 0 otherwise, while
  \<open>longestStreak\<close> does not depend on today (lemmas \<open>stats_currentStreak_last_key\<close>,
  \<open>stats_longest\<close>); with the four January days and today on 2024-01-10,
  \<open>currentStreak\<close> is 0 and \<open>longestStreak\<close> is 3 (lemma \<open>januaryDays_lapsed\<close>). The
  last of the sorted keys is the greatest key in the order of strings. Among days
  with four-digit years that is the most recent completed day (lemma
  \<open>last_sortedDates_latest\<close>), for every completion map it is not: with 1 June 999
  and 1 November 2026 completed and today on 2 November 2026, the most recent
  completed day is the day before today, but the key of the year 999 sorts last and
  \<open>currentStreak\<close> is 0, where the final running streak length is at least 1.
\<close>

theorem stats_currentStreak_year_999:
  "getDateKey (LocalDate 999 5 1 0) = ''999-06-01''
   \<and> getDateKey (LocalDate 2026 10 1 0) = ''2026-11-01''
   \<and> dayNumber 999 5 1 < dayNumber 2026 10 1
   \<and> dayBefore (LocalDate 2026 10 2 0) = LocalDate 2026 10 1 0
   \<and> truthy (getProp (JObj distantDays) (getDateKey (dayBefore (LocalDate 2026 10 2 0))))
   \<and> sortedDates distantDays = [''2026-11-01'', ''999-06-01'']
   \<and> currentStreak (stats legacy (LocalDate 2026 10 2 0) distantDays calendarDays) = 0
   \<and> 0 < last (runningStreaks 1 (gaps legacy (sortedDates distantDays)))
   \<and> 0 < last (runningStreaks 1 (gaps legacy [''999-06-01'', ''2026-11-01'']))"
proof -
  have k: "getDateKey (LocalDate 999 5 1 0) = ''999-06-01''"
    "getDateKey (LocalDate 2026 10 1 0) = ''2026-11-01''"
    "getDateKey (LocalDate 2026 10 2 0) = ''2026-11-02''"
    by (simp_all add: key_eval)
  have n: "dayNumber 999 5 1 < dayNumber 2026 10 1"
    by (simp add: dayNumber_def dayFromYear_def monthStart_def isLeap_def)
  have b: "dayBefore (LocalDate 2026 10 2 0) = LocalDate 2026 10 1 0" by simp
  have dd: "distantDays = [(''999-06-01'', JBool True), (''2026-11-01'', JBool True)]"
    unfolding distantDays_def k(1,2) by (rule refl)
  have t: "truthy (getProp (JObj distantDays) ''2026-11-01'')"
    by (simp add: dd getProp_def)
  have s: "sortedDates distantDays = [''2026-11-01'', ''999-06-01'']"
    by (simp add: sortedDates_def dd getProp_def)
  have ne: "sortedDates distantDays \<noteq> []" by (simp add: s)
  have v: "validDate (LocalDate 2026 10 2 0)" by (simp add: trueDayCount_def)
  have c: "currentStreak (stats legacy (LocalDate 2026 10 2 0) distantDays calendarDays) = 0"
    using stats_currentStreak_last_key [OF ne refl v, of legacy calendarDays]
    by (simp add: s key_eval)
  show ?thesis
    using k(1,2) n b t s c last_runningStreaks_pos [of "gaps legacy (sortedDates distantDays)"]
      last_runningStreaks_pos [of "gaps legacy [''999-06-01'', ''2026-11-01'']"]
    by (simp only: b k)
qed

text \<open>
  C4. \<open>handleImport\<close> fails with the \<^verbatim>\<open>SyntaxError\<close> of \<^verbatim>\<open>JSON.parse\<close> when the string
  is not JSON, fails with \<^verbatim>\<open>Invalid data format.\<close> when \<^verbatim>\<open>typeof\<close> of the
  \<^verbatim>\<open>completedDays\<close> or \<^verbatim>\<open>monthlyNotes\<close> property of the parsed value is not
  \<^verbatim>\<open>'object'\<close>, and every failure leaves the state as it was (lemma
  \<open>handleImport_rejects\<close>). But \<^verbatim>\<open>typeof null\<close> is \<^verbatim>\<open>'object'\<close>: a file whose
  \<^verbatim>\<open>completedDays\<close> is \<^verbatim>\<open>null\<close> holds no object there, and still it passes the
  check. With the confirmation given, the import does not fail: for every state it
  replaces the completion map by \<^verbatim>\<open>null\<close> and writes that to the storage.
\<close>

theorem handleImport_null_completedDays:
  "parseNullDays nullDaysText = Some nullDaysValue
   \<and> getProp nullDaysValue ''completedDays'' = JNull
   \<and> handleImport parseNullDays True nullDaysText st
       = (\<lparr>completedDays = JNull, monthlyNotes = JObj [],
           writes = writes st @ [(''completedDays'', JNull), (''monthlyNotes'', JObj [])]\<rparr>,
          ImportDone)"
proof -
  have p: "parseNullDays nullDaysText = Some nullDaysValue" by (simp add: parseNullDays_def)
  have a: "getProp nullDaysValue ''completedDays'' = JNull"
    and b: "getProp nullDaysValue ''monthlyNotes'' = JObj []"
    by (simp_all add: nullDaysValue_def getProp_def)
  have "handleImport parseNullDays True nullDaysText st
       = (\<lparr>completedDays = JNull, monthlyNotes = JObj [],
           writes = writes st @ [(''completedDays'', JNull), (''monthlyNotes'', JObj [])]\<rparr>,
          ImportDone)"
    by (simp add: handleImport_def p a b setMonthlyNotes_def setCompletedDays_def Let_def)
      (simp add: nullDaysValue_def)
  then show ?thesis using p a by simp
qed

text \<open>C4 at a state with 1 January 2024 completed: the import goes through and the
  completion map is \<^verbatim>\<open>null\<close> afterwards.\<close>

theorem handleImport_null_completedDays_witness:
  "completedDays oneDayApp = JObj [(''2024-01-01'', JBool True)]
   \<and> snd (handleImport parseNullDays True nullDaysText oneDayApp) = ImportDone
   \<and> completedDays (fst (handleImport parseNullDays True nullDaysText oneDayApp)) = JNull
   \<and> writes (fst (handleImport parseNullDays True nullDaysText oneDayApp))
       = [(''completedDays'', JNull), (''monthlyNotes'', JObj [])]"
  using handleImport_null_completedDays [of oneDayApp]
  by (simp add: oneDayApp_def)

text \<open>
  C5. \<open>monthlyPercentage\<close> lies between 0 and 100, is
  \<open>completedInMonth / totalDaysInMonth * 100\<close> rounded for every month of 28 to 31
  days, and is 0 when the month has no days (lemma \<open>stats_monthlyPercentage_value\<close>).
  It is not always an integer, though: \<^verbatim>\<open>toFixed(0)\<close> returns a string. For the
  grid of April 2024, a month of 30 days, with its first 15 days completed the
  percentage is the string \<^verbatim>\<open>"50"\<close> and not the number 50, while the branches of the
  same field for an empty month and for an empty map give the number 0.
\<close>

theorem stats_monthlyPercentage_string:
  "totalDaysInMonth (stats legacy now aprilHalf (generateCalendarDays (LocalDate 2024 3 20 0))) = 30
   \<and> completedInMonth (stats legacy now aprilHalf (generateCalendarDays (LocalDate 2024 3 20 0))) = 15
   \<and> monthlyPercentage (stats legacy now aprilHalf (generateCalendarDays (LocalDate 2024 3 20 0)))
       = JStr ''50''
   \<and> monthlyPercentage (stats legacy now aprilHalf (generateCalendarDays (LocalDate 2024 3 20 0)))
       \<noteq> JNum 50
   \<and> monthlyPercentage (stats legacy now [] (generateCalendarDays (LocalDate 2024 3 20 0))) = JNum 0
   \<and> monthlyPercentage (stats legacy now aprilHalf []) = JNum 0"
proof -
  have t: "totalDaysInMonth (stats legacy now aprilHalf (generateCalendarDays (LocalDate 2024 3 20 0))) = 30"
    by (simp add: stats_total april_2024_current)
  have c: "completedInMonth (stats legacy now aprilHalf (generateCalendarDays (LocalDate 2024 3 20 0))) = 15"
    by (simp add: stats_completed april_2024_completed)
  have p: "monthlyPercentage (stats legacy now aprilHalf (generateCalendarDays (LocalDate 2024 3 20 0)))
       = JStr ''50''"
    unfolding stats_percentage t c by (simp add: aprilHalf_sorted_nonempty toFixed0_example)
  have e: "monthlyPercentage (stats legacy now [] (generateCalendarDays (LocalDate 2024 3 20 0))) = JNum 0"
    by (simp add: stats_percentage sortedDates_Nil)
  have z: "monthlyPercentage (stats legacy now aprilHalf []) = JNum 0"
    by (simp add: stats_percentage stats_total)
  show ?thesis using t c p e z by simp
qed

text \<open>
  C6 (as amended). With an empty completion map the statistics are zero in every field
  but \<open>totalDaysInMonth\<close>, which stays the number of current-month cells of the grid.
\<close>

theorem stats_empty_map:
  "stats legacy now [] calendarDays =
     \<lparr>currentStreak = 0, longestStreak = 0, monthlyPercentage = JNum 0, completedInMonth = 0,
      totalDaysInMonth = length (filter isCurrentMonth calendarDays)\<rparr>"
  by (rule stats_empty [OF sortedDates_Nil])

text \<open>C6 as amended at the grid of January 2024.\<close>

theorem stats_empty_map_witness:
  "stats (\<lambda>s. None) (LocalDate 2024 0 10 0) [] (generateCalendarDays (LocalDate 2024 0 10 0)) =
     \<lparr>currentStreak = 0, longestStreak = 0, monthlyPercentage = JNum 0, completedInMonth = 0,
      totalDaysInMonth = 31\<rparr>"
  using stats_empty_map [of "\<lambda>s. None" "LocalDate 2024 0 10 0" "generateCalendarDays (LocalDate 2024 0 10 0)"]
  by (simp add: january_2024_total)

text \<open>C6 as stated fails at the grid of January 2024: \<open>totalDaysInMonth\<close> is 31.\<close>

theorem stats_empty_map_total_counterexample:
  "totalDaysInMonth (stats (\<lambda>s. None) (LocalDate 2024 0 10 0) []
     (generateCalendarDays (LocalDate 2024 0 10 0))) \<noteq> 0"
  by (simp add: stats_total january_2024_total)

text \<open>
  C7. Toggling is its own inverse at the key of the date: for every date and every
  completion map that holds the key with \<^verbatim>\<open>true\<close> or not at all, \<open>handleDayClick\<close>
  applied twice leaves the key as it was (present with \<^verbatim>\<open>true\<close> again, or absent
  again), going through the opposite state in between, and leaves every other key alone.
\<close>

theorem handleDayClick_twice:
  assumes "map_of (spread (completedDays st)) (getDateKey dt) = None
         \<or> map_of (spread (completedDays st)) (getDateKey dt) = Some (JBool True)"
  shows "map_of (spread (completedDays (handleDayClick dt (handleDayClick dt st)))) (getDateKey dt)
           = map_of (spread (completedDays st)) (getDateKey dt)
     \<and> (getDateKey dt \<noteq> [] \<and> map_of (spread (completedDays st)) (getDateKey dt) = Some (JBool True)
          \<longrightarrow> map_of (spread (completedDays (handleDayClick dt st))) (getDateKey dt) = None)
     \<and> (getDateKey dt \<noteq> [] \<and> map_of (spread (completedDays st)) (getDateKey dt) = None
          \<longrightarrow> map_of (spread (completedDays (handleDayClick dt st))) (getDateKey dt) = Some (JBool True))
     \<and> (\<forall>k. k \<noteq> getDateKey dt \<longrightarrow>
          map_of (spread (completedDays (handleDayClick dt (handleDayClick dt st)))) k
            = map_of (spread (completedDays st)) k)"
  using handleDayClick_two_clicks [OF assms]
  by (auto simp add: handleDayClick_map getProp_def)

text \<open>C7 at 1 January 2024, for a map that holds the day and for the empty map.\<close>

theorem handleDayClick_twice_witness:
  "map_of (spread (completedDays oneDayApp)) (getDateKey (LocalDate 2024 0 1 0)) = Some (JBool True)
   \<and> map_of (spread (completedDays (handleDayClick (LocalDate 2024 0 1 0) oneDayApp)))
        (getDateKey (LocalDate 2024 0 1 0)) = None
   \<and> map_of (spread (completedDays (handleDayClick (LocalDate 2024 0 1 0)
        (handleDayClick (LocalDate 2024 0 1 0) oneDayApp)))) (getDateKey (LocalDate 2024 0 1 0))
        = Some (JBool True)
   \<and> map_of (spread (completedDays freshApp)) (getDateKey (LocalDate 2024 0 1 0)) = None
   \<and> map_of (spread (completedDays (handleDayClick (LocalDate 2024 0 1 0) freshApp)))
        (getDateKey (LocalDate 2024 0 1 0)) = Some (JBool True)
   \<and> map_of (spread (completedDays (handleDayClick (LocalDate 2024 0 1 0)
        (handleDayClick (LocalDate 2024 0 1 0) freshApp)))) (getDateKey (LocalDate 2024 0 1 0))
        = None"
proof -
  have k: "getDateKey (LocalDate 2024 0 1 0) = ''2024-01-01''" by (simp add: key_eval)
  have a: "map_of (spread (completedDays oneDayApp)) ''2024-01-01'' = Some (JBool True)"
    by (simp add: oneDayApp_def)
  have b: "map_of (spread (completedDays freshApp)) ''2024-01-01'' = None"
    by (simp add: freshApp_def)
  show ?thesis
    using handleDayClick_twice [of oneDayApp "LocalDate 2024 0 1 0"]
      handleDayClick_twice [of freshApp "LocalDate 2024 0 1 0"]
    unfolding k by (simp add: a b)
qed

text \<open>
  C8 (as amended). \<open>handleMarkAll\<close> is idempotent: applied twice to the same grid it
  gives the same completion map as applied once. When every current-month cell is
  completed already it leaves both maps as they are, and the setter still writes the
  unchanged completion map to the storage.
\<close>

theorem handleMarkAll_idempotent:
  "completedDays (handleMarkAll calendarDays (handleMarkAll calendarDays st))
     = completedDays (handleMarkAll calendarDays st)
   \<and> (allCompleted calendarDays (completedDays st) \<longrightarrow>
        completedDays (handleMarkAll calendarDays st) = completedDays st
        \<and> monthlyNotes (handleMarkAll calendarDays st) = monthlyNotes st
        \<and> writes (handleMarkAll calendarDays st)
            = writes st @ [(''completedDays'', completedDays st)])"
  by (simp add: handleMarkAll_completedDays markAllUpdater_idem markAllUpdater_noop
      handleMarkAll_writes) (simp add: handleMarkAll_def setCompletedDays_def Let_def)

text \<open>C8 as amended at the grid of April 2024: after one \<open>handleMarkAll\<close> on a fresh
  state every cell is completed, and the second one keeps the map and appends a write.\<close>

theorem handleMarkAll_idempotent_witness:
  "allCompleted (generateCalendarDays (LocalDate 2024 3 20 0))
     (completedDays (handleMarkAll (generateCalendarDays (LocalDate 2024 3 20 0)) freshApp))
   \<and> completedDays (handleMarkAll (generateCalendarDays (LocalDate 2024 3 20 0))
         (handleMarkAll (generateCalendarDays (LocalDate 2024 3 20 0)) freshApp))
       = completedDays (handleMarkAll (generateCalendarDays (LocalDate 2024 3 20 0)) freshApp)
   \<and> writes (handleMarkAll (generateCalendarDays (LocalDate 2024 3 20 0))
         (handleMarkAll (generateCalendarDays (LocalDate 2024 3 20 0)) freshApp))
       = writes (handleMarkAll (generateCalendarDays (LocalDate 2024 3 20 0)) freshApp)
         @ [(''completedDays'',
             completedDays (handleMarkAll (generateCalendarDays (LocalDate 2024 3 20 0)) freshApp))]"
  using handleMarkAll_idempotent [of "generateCalendarDays (LocalDate 2024 3 20 0)"
      "handleMarkAll (generateCalendarDays (LocalDate 2024 3 20 0)) freshApp"]
    april_allCompleted [of freshApp]
  by simp

text \<open>C8 as stated fails there: the second \<open>handleMarkAll\<close> finds every current-month
  cell completed and the storage is written a second time.\<close>

theorem handleMarkAll_write_counterexample:
  "allCompleted (generateCalendarDays (LocalDate 2024 3 20 0))
     (completedDays (handleMarkAll (generateCalendarDays (LocalDate 2024 3 20 0)) freshApp))
   \<and> length (writes (handleMarkAll (generateCalendarDays (LocalDate 2024 3 20 0)) freshApp)) = 1
   \<and> length (writes (handleMarkAll (generateCalendarDays (LocalDate 2024 3 20 0))
         (handleMarkAll (generateCalendarDays (LocalDate 2024 3 20 0)) freshApp))) = 2"
  using april_allCompleted [of freshApp]
  by (simp add: handleMarkAll_writes freshApp_def)

text \<open>
  C9. \<open>getDateKey\<close> is stable (a function of the calendar day, lemma
  \<open>getDateKey_time_of_day\<close>) and injective over calendar days (lemma
  \<open>getDateKey_inj\<close>), and between days whose years have the same number of digits the
  order of the keys as strings is the order of the days (lemmas \<open>getDateKey_less_iff\<close>,
  \<open>getDateKey_order_four_digits\<close>, \<open>getDateKey_year_boundary\<close>). For every pair of days
  it is not: the year is not padded, so the key of 1 January 10000 sorts before the key
  of 31 December 9999, the day before it, and the statistics walk the two in that order.
\<close>

theorem getDateKey_order_year_10000:
  "getDateKey (LocalDate 9999 11 31 0) = ''9999-12-31''
   \<and> getDateKey (LocalDate 10000 0 1 0) = ''10000-01-01''
   \<and> dayNumber 9999 11 31 + 1 = dayNumber 10000 0 1
   \<and> getDateKey (LocalDate 10000 0 1 0) < getDateKey (LocalDate 9999 11 31 0)
   \<and> sortedDates [(getDateKey (LocalDate 9999 11 31 0), JBool True),
                    (getDateKey (LocalDate 10000 0 1 0), JBool True)]
       = [''10000-01-01'', ''9999-12-31'']"
  by (simp add: key_eval dayNumber_def dayFromYear_def monthStart_def isLeap_def sortedDates_def
      getProp_def)

text \<open>
  C10 (as amended). Toggle, mark-all and reset-month preserve the invariant that every
  key of the completion map holds \<^verbatim>\<open>true\<close>; un-completing a day by toggle or reset
  deletes its key. An import that fails or is declined leaves the map as it is; an
  import that goes through replaces it by the \<^verbatim>\<open>completedDays\<close> value of the file as
  it stands, whatever its properties hold.
\<close>

theorem onlyTrue_preserved:
  assumes "onlyTrue (completedDays st)"
  shows "onlyTrue (completedDays (handleDayClick dt st))
     \<and> (getDateKey dt \<noteq> [] \<and> truthy (getProp (completedDays st) (getDateKey dt)) \<longrightarrow>
          map_of (spread (completedDays (handleDayClick dt st))) (getDateKey dt) = None)
     \<and> onlyTrue (completedDays (handleMarkAll calendarDays st))
     \<and> onlyTrue (completedDays (fst (handleResetMonth confirmed calendarDays st)))
     \<and> (snd (handleResetMonth confirmed calendarDays st) = ResetDone \<longrightarrow>
          (\<forall>k \<in> set (currentMonthKeys calendarDays).
             map_of (spread (completedDays (fst (handleResetMonth confirmed calendarDays st)))) k = None))
     \<and> (snd (handleImport parse confirmed jsonData st) \<noteq> ImportDone \<longrightarrow>
          completedDays (fst (handleImport parse confirmed jsonData st)) = completedDays st)
     \<and> (snd (handleImport parse confirmed jsonData st) = ImportDone \<longrightarrow>
          (\<exists>data. parse jsonData = Some data
             \<and> completedDays (fst (handleImport parse confirmed jsonData st))
                 = getProp data ''completedDays''))"
proof -
  have toggle: "onlyTrue (completedDays (handleDayClick dt st))"
    using assms by (simp add: handleDayClick_def Let_def completedDays_set onlyTrue_toggleUpdater)
  have deleted: "getDateKey dt \<noteq> [] \<and> truthy (getProp (completedDays st) (getDateKey dt)) \<longrightarrow>
      map_of (spread (completedDays (handleDayClick dt st))) (getDateKey dt) = None"
    by (simp add: handleDayClick_map)
  have markAll: "onlyTrue (completedDays (handleMarkAll calendarDays st))"
    using assms by (simp add: handleMarkAll_completedDays onlyTrue_markAllUpdater)
  have reset: "onlyTrue (completedDays (fst (handleResetMonth confirmed calendarDays st)))"
    using assms handleResetMonth_completedDays [of confirmed calendarDays st]
    by (auto simp add: onlyTrue_resetUpdater)
  have resetDone: "snd (handleResetMonth confirmed calendarDays st) = ResetDone \<longrightarrow>
      (\<forall>k \<in> set (currentMonthKeys calendarDays).
         map_of (spread (completedDays (fst (handleResetMonth confirmed calendarDays st)))) k = None)"
    by (simp add: handleResetMonth_def Let_def completedDays_set resetUpdater_def map_of_foldl_delete)
  have importNot: "snd (handleImport parse confirmed jsonData st) \<noteq> ImportDone \<longrightarrow>
      completedDays (fst (handleImport parse confirmed jsonData st)) = completedDays st"
    by (simp add: handleImport_completedDays)
  have importDone: "snd (handleImport parse confirmed jsonData st) = ImportDone \<longrightarrow>
      (\<exists>data. parse jsonData = Some data
         \<and> completedDays (fst (handleImport parse confirmed jsonData st))
             = getProp data ''completedDays'')"
    by (auto simp add: handleImport_def setMonthlyNotes_def setCompletedDays_def Let_def
        split: option.splits if_splits)
  from toggle deleted markAll reset resetDone importNot importDone show ?thesis by blast
qed

text \<open>C10 as amended at a state with 1 January 2024 completed, the grid of January 2024
  and an import of a text that is not JSON.\<close>

theorem onlyTrue_preserved_witness:
  "onlyTrue (completedDays oneDayApp)
   \<and> onlyTrue (completedDays (handleDayClick (LocalDate 2024 0 1 0) oneDayApp))
   \<and> truthy (getProp (completedDays oneDayApp) (getDateKey (LocalDate 2024 0 1 0)))
   \<and> map_of (spread (completedDays (handleDayClick (LocalDate 2024 0 1 0) oneDayApp)))
        (getDateKey (LocalDate 2024 0 1 0)) = None
   \<and> onlyTrue (completedDays (handleMarkAll (generateCalendarDays (LocalDate 2024 0 10 0)) oneDayApp))
   \<and> snd (handleResetMonth True (generateCalendarDays (LocalDate 2024 0 10 0)) oneDayApp) = ResetDone
   \<and> onlyTrue (completedDays (fst (handleResetMonth True
        (generateCalendarDays (LocalDate 2024 0 10 0)) oneDayApp)))
   \<and> list_all (\<lambda>k. map_of (spread (completedDays (fst (handleResetMonth True
        (generateCalendarDays (LocalDate 2024 0 10 0)) oneDayApp)))) k = None)
        (currentMonthKeys (generateCalendarDays (LocalDate 2024 0 10 0)))
   \<and> snd (handleImport parseSample True ''{oops'' oneDayApp) = ImportFailed SyntaxError
   \<and> completedDays (fst (handleImport parseSample True ''{oops'' oneDayApp)) = completedDays oneDayApp"
proof -
  have inv: "onlyTrue (completedDays oneDayApp)" by (simp add: onlyTrue_def oneDayApp_def)
  have t: "truthy (getProp (completedDays oneDayApp) (getDateKey (LocalDate 2024 0 1 0)))"
    by (simp add: oneDayApp_def getProp_def key_eval)
  have f: "handleImport parseSample True ''{oops'' oneDayApp = (oneDayApp, ImportFailed SyntaxError)"
    by (rule handleImport_unparseable) (simp add: parseSample_def importText_def)
  show ?thesis
    using onlyTrue_preserved [OF inv, of "LocalDate 2024 0 1 0"
        "generateCalendarDays (LocalDate 2024 0 10 0)" True parseSample "''{oops''"]
      inv t oneDay_reset f
    by (simp add: list_all_iff)
qed

text \<open>C10 as stated fails for import: a file in the export format that stores
  \<^verbatim>\<open>false\<close> for a day passes the validation and becomes the completion map.\<close>

theorem onlyTrue_import_counterexample:
  "onlyTrue (completedDays freshApp)
   \<and> snd (handleImport parseSample True importText freshApp) = ImportDone
   \<and> completedDays (fst (handleImport parseSample True importText freshApp))
       = JObj [(''2024-01-01'', JBool False)]
   \<and> \<not> onlyTrue (completedDays (fst (handleImport parseSample True importText freshApp)))"
  by (simp add: import_false onlyTrue_def) (simp add: freshApp_def)

end
